theory Spec2Isabelle
  imports Main
begin

section \<open>Values: text, JSON, errors\<close>

text \<open>
  The model covers the database schema (001_initial_schema.sql), the two stored
  procedures (002_rpc_functions.sql), the order store's \<open>updateOrderStatus\<close> and
  \<open>cancelOrder\<close> (orderStore.ts), \<open>verifyPayment\<close> (thunderClient.ts) and the cart
  store.

  Conventions of the embedding:
  \<^item> a UUID is its text; a \<open>DECIMAL(10,2)\<close> amount is an integer number of hundredths;
    an \<open>INTEGER\<close> is an \<open>int\<close>; a timestamp is a natural number. Values are taken to
    fit their column types: widths (\<open>VARCHAR(n)\<close>, the precision of \<open>DECIMAL(10,2)\<close>,
    the range of \<open>INTEGER\<close>) are not modelled;
  \<^item> \<open>NULL\<close> is \<open>None\<close>; a column declared \<open>NOT NULL\<close> has a type without \<open>None\<close>;
  \<^item> the declared row constraints (\<open>CHECK\<close>, \<open>UNIQUE\<close>, \<open>PRIMARY KEY\<close>, and the
    foreign keys to \<open>profiles\<close>) are checked by every write, which fails with the
    error PostgreSQL raises;
  \<^item> \<open>NOW()\<close>, \<open>RANDOM()\<close> and \<open>uuid_generate_v4()\<close> are inputs of a call;
  \<^item> the bookkeeping columns \<open>created_at\<close> and \<open>updated_at\<close> (and the trigger that
    maintains the latter), the surrogate keys of \<open>order_items\<close> and \<open>activity_logs\<close>,
    and the columns no modelled operation reads or writes are left out;
  \<^item> every statement runs alone: concurrency and row locks are not modelled.
\<close>

type_synonym uuid = string
type_synonym money = int
type_synonym timestamp = nat
type_synonym geography = string

definition digit_char :: "nat \<Rightarrow> char" where
  "digit_char n = ''0123456789'' ! (n mod 10)"

fun show_nat :: "nat \<Rightarrow> string" where
  "show_nat n = (if n < 10 then [digit_char n] else show_nat (n div 10) @ [digit_char n])"

declare show_nat.simps [simp del]

definition show_int :: "int \<Rightarrow> string" where
  "show_int i = (if i < 0 then CHR ''-'' # show_nat (nat (- i)) else show_nat (nat i))"

text \<open>\<open>LPAD(s, n, c)\<close> for a one-character fill: pads on the left, or truncates to \<open>n\<close>.\<close>

definition lpad :: "string \<Rightarrow> nat \<Rightarrow> char \<Rightarrow> string" where
  "lpad s n c = (if n \<le> length s then take n s else replicate (n - length s) c @ s)"

text \<open>An identifier in double quotes, as PostgreSQL's messages print it.\<close>

definition dq :: "string \<Rightarrow> string" where
  "dq s = [CHR 0x22] @ s @ [CHR 0x22]"

datatype json =
    JNull
  | JBool bool
  | JNum int
  | JStr string
  | JObj "(string \<times> json) list"

definition jsonb_build_object :: "(string \<times> json) list \<Rightarrow> json" where
  "jsonb_build_object kvs = JObj kvs"

text \<open>\<open>obj -> key\<close>, and \<open>obj ->> key\<close> for the string members this code reads.\<close>

fun json_get :: "json \<Rightarrow> string \<Rightarrow> json option" where
  "json_get (JObj kvs) k = map_of kvs k"
| "json_get _ k = None"

definition json_get_text :: "json \<Rightarrow> string \<Rightarrow> string option" where
  "json_get_text j k = (case json_get j k of Some (JStr s) \<Rightarrow> Some s | _ \<Rightarrow> None)"

text \<open>
  The errors a statement can raise: \<open>RAISE EXCEPTION\<close> with its message, and the
  violations of declared constraints (relation and constraint name). \<open>SQLERRM\<close> is the
  message text of an error.
\<close>

datatype pg_error =
    RaisedException string
  | CheckViolation string string
  | UniqueViolation string
  | ForeignKeyViolation string string

fun SQLERRM :: "pg_error \<Rightarrow> string" where
  "SQLERRM (RaisedException msg) = msg"
| "SQLERRM (CheckViolation rel c) =
     ''new row for relation '' @ dq rel @ '' violates check constraint '' @ dq c"
| "SQLERRM (UniqueViolation c) =
     ''duplicate key value violates unique constraint '' @ dq c"
| "SQLERRM (ForeignKeyViolation rel c) =
     ''insert or update on table '' @ dq rel @ '' violates foreign key constraint '' @ dq c"

section \<open>The schema (001_initial_schema.sql)\<close>

record store_settings_row =
  is_store_open :: "bool option"
  flat_shipping_fee :: "money option"

record products_row =
  pr_id :: uuid
  price :: money
  stock :: int
  is_available :: "bool option"

record orders_row =
  o_id :: uuid
  user_id :: "uuid option"
  order_number :: string
  total_price :: money
  shipping_fee :: money
  shipping_address :: string
  shipping_coordinates :: "geography option"
  shipping_method :: "string option"
  status :: "string option"
  payment_slip_url :: "string option"
  trans_ref :: "string option"
  thunder_verified :: "bool option"
  verified_at :: "timestamp option"

record order_items_row =
  oi_order_id :: "uuid option"
  oi_product_id :: "uuid option"
  oi_quantity :: int
  oi_unit_price :: money

record activity_logs_row =
  log_user_id :: "uuid option"
  action_type :: string
  table_name :: "string option"
  record_id :: "uuid option"
  new_data :: "json option"
  error_message :: "string option"

text \<open>A database state: the rows of each table, in insertion order.\<close>

record db =
  store_settings :: "store_settings_row list"
  profiles :: "uuid list"
  products :: "products_row list"
  orders :: "orders_row list"
  order_items :: "order_items_row list"
  activity_logs :: "activity_logs_row list"

text \<open>The state the migrations create: the default settings row, every other table empty.\<close>

definition init_db :: db where
  "init_db = \<lparr>store_settings = [\<lparr>is_store_open = Some True, flat_shipping_fee = Some 0\<rparr>],
              profiles = [], products = [], orders = [], order_items = [],
              activity_logs = []\<rparr>"

definition order_statuses :: "string list" where
  "order_statuses = [''pending'', ''paid'', ''processing'', ''shipping'', ''delivered'',
                     ''cancelled'', ''problem'']"

text \<open>
  The constraints on a new row version, given the other rows of its table. \<open>CHECK\<close>
  constraints come first, in the order of their names, then the unique indexes in the
  order of their creation. A \<open>CHECK\<close> on \<open>NULL\<close> passes.
\<close>

definition products_constraints :: "products_row list \<Rightarrow> products_row \<Rightarrow> pg_error option" where
  "products_constraints others r =
     (if price r < 0 then Some (CheckViolation ''products'' ''products_price_check'')
      else if stock r < 0 then Some (CheckViolation ''products'' ''products_stock_check'')
      else if pr_id r \<in> set (map pr_id others) then Some (UniqueViolation ''products_pkey'')
      else None)"

definition status_allowed :: "string option \<Rightarrow> bool" where
  "status_allowed s = (case s of None \<Rightarrow> True | Some v \<Rightarrow> v \<in> set order_statuses)"

definition orders_constraints :: "orders_row list \<Rightarrow> orders_row \<Rightarrow> pg_error option" where
  "orders_constraints others r =
     (if \<not> status_allowed (status r) then Some (CheckViolation ''orders'' ''orders_status_check'')
      else if total_price r < 0 then Some (CheckViolation ''orders'' ''orders_total_price_check'')
      else if o_id r \<in> set (map o_id others) then Some (UniqueViolation ''orders_pkey'')
      else if order_number r \<in> set (map order_number others)
        then Some (UniqueViolation ''orders_order_number_key'')
      else if trans_ref r \<noteq> None \<and> trans_ref r \<in> set (map trans_ref others)
        then Some (UniqueViolation ''orders_trans_ref_key'')
      else None)"

definition order_items_constraints :: "order_items_row \<Rightarrow> pg_error option" where
  "order_items_constraints r =
     (if \<not> 0 < oi_quantity r
        then Some (CheckViolation ''order_items'' ''order_items_quantity_check'')
      else if oi_unit_price r < 0
        then Some (CheckViolation ''order_items'' ''order_items_unit_price_check'')
      else None)"

text \<open>A foreign key to \<open>profiles(id)\<close>: \<open>NULL\<close> or the id of a profile.\<close>

definition references_profile :: "db \<Rightarrow> uuid option \<Rightarrow> bool" where
  "references_profile d u = (case u of None \<Rightarrow> True | Some v \<Rightarrow> v \<in> set (profiles d))"

section \<open>Statements\<close>

text \<open>
  \<open>UPDATE t SET ... WHERE P\<close>: the rows are visited in order; each matching row is
  replaced by its new version after that version passed the constraints against the
  other rows as they stand; the first violation aborts the statement.
\<close>

fun update_where ::
  "('r \<Rightarrow> bool) \<Rightarrow> ('r \<Rightarrow> 'r) \<Rightarrow> ('r list \<Rightarrow> 'r \<Rightarrow> 'r \<Rightarrow> pg_error option) \<Rightarrow>
   'r list \<Rightarrow> 'r list \<Rightarrow> pg_error + 'r list" where
  "update_where P f chk seen [] = Inr seen"
| "update_where P f chk seen (r # rest) =
     (if P r then
        (case chk (seen @ rest) r (f r) of
           Some e \<Rightarrow> Inl e
         | None \<Rightarrow> update_where P f chk (seen @ [f r]) rest)
      else update_where P f chk (seen @ [r]) rest)"

definition update_products ::
  "(products_row \<Rightarrow> bool) \<Rightarrow> (products_row \<Rightarrow> products_row) \<Rightarrow> db \<Rightarrow> pg_error + db" where
  "update_products P f d =
     (case update_where P f (\<lambda>others old new. products_constraints others new) [] (products d) of
        Inl e \<Rightarrow> Inl e
      | Inr rows \<Rightarrow> Inr (d\<lparr>products := rows\<rparr>))"

definition insert_products :: "products_row \<Rightarrow> db \<Rightarrow> pg_error + db" where
  "insert_products r d =
     (case products_constraints (products d) r of
        Some e \<Rightarrow> Inl e
      | None \<Rightarrow> Inr (d\<lparr>products := products d @ [r]\<rparr>))"

text \<open>
  On \<open>orders\<close> the foreign key \<open>user_id\<close> is checked for an inserted row, and for an
  updated row whose \<open>user_id\<close> changed.
\<close>

definition orders_fk :: "db \<Rightarrow> orders_row \<Rightarrow> pg_error option" where
  "orders_fk d r =
     (if references_profile d (user_id r) then None
      else Some (ForeignKeyViolation ''orders'' ''orders_user_id_fkey''))"

definition orders_update_check ::
  "db \<Rightarrow> orders_row list \<Rightarrow> orders_row \<Rightarrow> orders_row \<Rightarrow> pg_error option" where
  "orders_update_check d others old new =
     (case orders_constraints others new of
        Some e \<Rightarrow> Some e
      | None \<Rightarrow> if user_id new = user_id old then None else orders_fk d new)"

definition update_orders ::
  "(orders_row \<Rightarrow> bool) \<Rightarrow> (orders_row \<Rightarrow> orders_row) \<Rightarrow> db \<Rightarrow> pg_error + db" where
  "update_orders P f d =
     (case update_where P f (orders_update_check d) [] (orders d) of
        Inl e \<Rightarrow> Inl e
      | Inr rows \<Rightarrow> Inr (d\<lparr>orders := rows\<rparr>))"

definition insert_orders :: "orders_row \<Rightarrow> db \<Rightarrow> pg_error + db" where
  "insert_orders r d =
     (case orders_constraints (orders d) r of
        Some e \<Rightarrow> Inl e
      | None \<Rightarrow>
          (case orders_fk d r of
             Some e \<Rightarrow> Inl e
           | None \<Rightarrow> Inr (d\<lparr>orders := orders d @ [r]\<rparr>)))"

text \<open>
  \<open>INSERT INTO order_items ... SELECT\<close>: the rows are inserted in order and the first
  violation aborts the statement. Their foreign keys are not checked here: where
  \<open>place_order_complete\<close> inserts, the order was just inserted and the loop found
  every product.
\<close>

fun insert_order_items :: "order_items_row list \<Rightarrow> db \<Rightarrow> pg_error + db" where
  "insert_order_items [] d = Inr d"
| "insert_order_items (r # rs) d =
     (case order_items_constraints r of
        Some e \<Rightarrow> Inl e
      | None \<Rightarrow> insert_order_items rs (d\<lparr>order_items := order_items d @ [r]\<rparr>))"

definition insert_activity_logs :: "activity_logs_row \<Rightarrow> db \<Rightarrow> pg_error + db" where
  "insert_activity_logs r d =
     (if references_profile d (log_user_id r)
      then Inr (d\<lparr>activity_logs := activity_logs d @ [r]\<rparr>)
      else Inl (ForeignKeyViolation ''activity_logs'' ''activity_logs_user_id_fkey''))"

section \<open>place_order_complete (002_rpc_functions.sql)\<close>

text \<open>An element of \<open>p_order_items\<close>, with the members the procedure reads.\<close>

record order_item =
  item_product_id :: uuid
  item_quantity :: int
  item_unit_price :: money

record place_order_args =
  p_user_id :: "uuid option"
  p_shipping_address :: string
  p_shipping_coordinates :: "geography option"
  p_total_price :: money
  p_shipping_fee :: money
  p_order_items :: "order_item list"
  p_payment_slip_url :: "string option"
  p_trans_ref :: "string option"

text \<open>
  What a call draws from the server: \<open>NOW()\<close>, its rendering \<open>TO_CHAR(NOW(), 'YYMMDD')\<close>,
  \<open>FLOOR(RANDOM() * 100000)\<close> (below 100000) and the UUID generated for the new order.
\<close>

record rpc_env =
  now :: timestamp
  now_yymmdd :: string
  random_draw :: nat
  new_uuid :: uuid

text \<open>
  The loop over the items: the product row with this id and \<open>is_available = TRUE\<close> is
  read; a missing row or a stock below the quantity raises; otherwise the stock of the
  rows with this id is decreased by the quantity.
\<close>

fun process_order_items :: "order_item list \<Rightarrow> db \<Rightarrow> pg_error + db" where
  "process_order_items [] d = Inr d"
| "process_order_items (v_item # rest) d =
     (let v_product_id = item_product_id v_item;
          v_quantity = item_quantity v_item
      in case find (\<lambda>p. pr_id p = v_product_id \<and> is_available p = Some True) (products d) of
           None \<Rightarrow>
             Inl (RaisedException
                   (''PRODUCT_UNAVAILABLE: Product '' @ v_product_id @ '' is not available''))
         | Some p \<Rightarrow>
             (let v_current_stock = stock p
              in if v_current_stock < v_quantity then
                   Inl (RaisedException
                         (''INSUFFICIENT_STOCK: Product '' @ v_product_id @ '' has only '' @
                          show_int v_current_stock @ '' items in stock''))
                 else
                   (case update_products (\<lambda>q. pr_id q = v_product_id)
                           (\<lambda>q. q\<lparr>stock := stock q - v_quantity\<rparr>) d of
                      Inl e \<Rightarrow> Inl e
                    | Inr d' \<Rightarrow> process_order_items rest d')))"

definition store_open_flag :: "db \<Rightarrow> bool option" where
  "store_open_flag d = (case store_settings d of [] \<Rightarrow> None | s # _ \<Rightarrow> is_store_open s)"

definition make_order_number :: "rpc_env \<Rightarrow> string" where
  "make_order_number env = now_yymmdd env @ ''-'' @ lpad (show_nat (random_draw env)) 5 (CHR ''0'')"

definition new_order_row :: "place_order_args \<Rightarrow> rpc_env \<Rightarrow> orders_row" where
  "new_order_row a env =
     \<lparr>o_id = new_uuid env,
      user_id = p_user_id a,
      order_number = make_order_number env,
      total_price = p_total_price a,
      shipping_fee = p_shipping_fee a,
      shipping_address = p_shipping_address a,
      shipping_coordinates = p_shipping_coordinates a,
      shipping_method = Some ''delivery'',
      status = Some ''pending'',
      payment_slip_url = p_payment_slip_url a,
      trans_ref = p_trans_ref a,
      thunder_verified = Some False,
      verified_at = None\<rparr>"

definition new_order_item_row :: "uuid \<Rightarrow> order_item \<Rightarrow> order_items_row" where
  "new_order_item_row v_order_id item =
     \<lparr>oi_order_id = Some v_order_id,
      oi_product_id = Some (item_product_id item),
      oi_quantity = item_quantity item,
      oi_unit_price = item_unit_price item\<rparr>"

definition order_created_log :: "place_order_args \<Rightarrow> rpc_env \<Rightarrow> activity_logs_row" where
  "order_created_log a env =
     \<lparr>log_user_id = p_user_id a,
      action_type = ''ORDER_CREATED'',
      table_name = Some ''orders'',
      record_id = Some (new_uuid env),
      new_data = Some (jsonb_build_object
        [(''order_number'', JStr (make_order_number env)),
         (''total_price'', JNum (p_total_price a)),
         (''items_count'', JNum (int (length (p_order_items a))))]),
      error_message = None\<rparr>"

text \<open>
  The inner block up to its \<open>EXCEPTION\<close> clause. \<open>IF NOT v_store_open\<close> is taken only when
  the flag is \<open>FALSE\<close>: with no settings row or a \<open>NULL\<close> flag the block goes on.
\<close>

definition place_order_block :: "place_order_args \<Rightarrow> rpc_env \<Rightarrow> db \<Rightarrow> pg_error + (json \<times> db)" where
  "place_order_block a env d =
     (if store_open_flag d = Some False then
        Inl (RaisedException ''STORE_CLOSED: Store is currently closed'')
      else
        (case process_order_items (p_order_items a) d of
           Inl e \<Rightarrow> Inl e
         | Inr d1 \<Rightarrow>
        (case insert_orders (new_order_row a env) d1 of
           Inl e \<Rightarrow> Inl e
         | Inr d2 \<Rightarrow>
        (case insert_order_items (map (new_order_item_row (new_uuid env)) (p_order_items a)) d2 of
           Inl e \<Rightarrow> Inl e
         | Inr d3 \<Rightarrow>
        (case insert_activity_logs (order_created_log a env) d3 of
           Inl e \<Rightarrow> Inl e
         | Inr d4 \<Rightarrow>
             Inr (jsonb_build_object
                    [(''success'', JBool True),
                     (''order_id'', JStr (new_uuid env)),
                     (''order_number'', JStr (make_order_number env)),
                     (''message'', JStr ''Order placed successfully'')],
                  d4))))))"

definition order_error_log :: "place_order_args \<Rightarrow> string \<Rightarrow> activity_logs_row" where
  "order_error_log a v_error_message =
     \<lparr>log_user_id = p_user_id a,
      action_type = ''ORDER_ERROR'',
      table_name = None,
      record_id = None,
      new_data = None,
      error_message = Some v_error_message\<rparr>"

text \<open>
  The procedure. An exception in the block undoes the block's writes, and the handler
  logs the message and returns it. An exception in the handler itself leaves the
  procedure: the call fails with that error (\<open>Inl\<close>) and the state is as before.
\<close>

definition place_order_complete :: "place_order_args \<Rightarrow> rpc_env \<Rightarrow> db \<Rightarrow> (pg_error + json) \<times> db" where
  "place_order_complete a env d =
     (case place_order_block a env d of
        Inr (v_result, d') \<Rightarrow> (Inr v_result, d')
      | Inl e \<Rightarrow>
          (let v_error_message = SQLERRM e
           in case insert_activity_logs (order_error_log a v_error_message) d of
                Inl e' \<Rightarrow> (Inl e', d)
              | Inr d' \<Rightarrow>
                  (Inr (jsonb_build_object
                          [(''success'', JBool False), (''error'', JStr v_error_message)]),
                   d')))"

section \<open>verify_payment_slip (002_rpc_functions.sql)\<close>

definition payment_log ::
  "string \<Rightarrow> uuid \<Rightarrow> json option \<Rightarrow> string option \<Rightarrow> activity_logs_row" where
  "payment_log action p_order_id data msg =
     \<lparr>log_user_id = None,
      action_type = action,
      table_name = Some ''orders'',
      record_id = Some p_order_id,
      new_data = data,
      error_message = msg\<rparr>"

text \<open>
  The procedure has no exception handler: an error of one of its statements fails the
  call (\<open>Inl\<close>) and leaves the state as before. \<open>trans_ref = p_trans_ref\<close> is never true
  of a \<open>NULL\<close> reference.
\<close>

definition verify_payment_slip ::
  "uuid \<Rightarrow> string option \<Rightarrow> money \<Rightarrow> string option \<Rightarrow> timestamp \<Rightarrow> db \<Rightarrow> (pg_error + json) \<times> db" where
  "verify_payment_slip p_order_id p_trans_ref' p_expected_amount p_slip_url now' d =
     (let v_order_exists = list_ex (\<lambda>r. o_id r = p_order_id \<and> trans_ref r = None) (orders d)
      in if \<not> v_order_exists then
           (Inr (jsonb_build_object
                   [(''success'', JBool False),
                    (''error'', JStr ''ORDER_NOT_FOUND_OR_ALREADY_VERIFIED'')]), d)
         else
      let v_already_verified =
            (p_trans_ref' \<noteq> None \<and> list_ex (\<lambda>r. trans_ref r = p_trans_ref') (orders d))
      in if v_already_verified then
           (Inr (jsonb_build_object
                   [(''success'', JBool False),
                    (''error'', JStr ''DUPLICATE_TRANSACTION_REFERENCE'')]), d)
         else
      let v_thunder_response =
            (if p_trans_ref' = None \<or> p_trans_ref' = Some [] then
               jsonb_build_object
                 [(''status'', JStr ''error''),
                  (''message'', JStr ''Invalid transaction reference'')]
             else
               jsonb_build_object
                 [(''status'', JStr ''success''),
                  (''amount'', JNum p_expected_amount),
                  (''verified'', JBool True),
                  (''timestamp'', JNum (int now'))])
      in if json_get_text v_thunder_response ''status'' = Some ''success'' then
           (case update_orders (\<lambda>r. o_id r = p_order_id)
                   (\<lambda>r. r\<lparr>status := Some ''paid'',
                           trans_ref := p_trans_ref',
                           thunder_verified := Some True,
                           verified_at := Some now',
                           payment_slip_url := p_slip_url\<rparr>) d of
              Inl e \<Rightarrow> (Inl e, d)
            | Inr d1 \<Rightarrow>
                (case insert_activity_logs
                        (payment_log ''PAYMENT_VERIFIED'' p_order_id
                           (Some (jsonb_build_object
                                    [(''trans_ref'', (case p_trans_ref' of None \<Rightarrow> JNull | Some t \<Rightarrow> JStr t)),
                                     (''amount'', JNum p_expected_amount)]))
                           None) d1 of
                   Inl e \<Rightarrow> (Inl e, d)
                 | Inr d2 \<Rightarrow>
                     (Inr (jsonb_build_object
                             [(''success'', JBool True),
                              (''message'', JStr ''Payment verified successfully''),
                              (''order_id'', JStr p_order_id)]), d2)))
         else
           (case insert_activity_logs
                   (payment_log ''PAYMENT_FAILED'' p_order_id None
                      (json_get_text v_thunder_response ''message'')) d of
              Inl e \<Rightarrow> (Inl e, d)
            | Inr d1 \<Rightarrow>
                (Inr (jsonb_build_object
                        [(''success'', JBool False),
                         (''error'', (case json_get_text v_thunder_response ''message'' of
                                        None \<Rightarrow> JNull | Some m \<Rightarrow> JStr m))]), d1)))"

section \<open>The order store (orderStore.ts)\<close>

text \<open>
  \<open>OrderStatus\<close> is the union of the seven status literals. The store's local cache
  (\<open>orders\<close>, \<open>currentOrder\<close>, \<open>isLoading\<close>, \<open>error\<close>) is not part of the database and is
  left out; a call returns what it throws, or nothing, with the new database state.
  A request is taken to reach the database: \<open>error\<close> is what the database answered.
\<close>

datatype OrderStatus = Pending | Paid | Processing | Shipping | Delivered | Cancelled | Problem

fun status_text :: "OrderStatus \<Rightarrow> string" where
  "status_text Pending = ''pending''"
| "status_text Paid = ''paid''"
| "status_text Processing = ''processing''"
| "status_text Shipping = ''shipping''"
| "status_text Delivered = ''delivered''"
| "status_text Cancelled = ''cancelled''"
| "status_text Problem = ''problem''"

datatype js_error =
    PostgrestError pg_error
  | SingleRowExpected
  | Error string

definition updateOrderStatus :: "uuid \<Rightarrow> OrderStatus \<Rightarrow> db \<Rightarrow> (js_error + unit) \<times> db" where
  "updateOrderStatus orderId new_status d =
     (case update_orders (\<lambda>r. o_id r = orderId)
             (\<lambda>r. r\<lparr>status := Some (status_text new_status)\<rparr>) d of
        Inl e \<Rightarrow> (Inl (PostgrestError e), d)
      | Inr d' \<Rightarrow> (Inr (), d'))"

text \<open>
  Modelled from the spec: the database function \<open>increment_product_stock\<close>, which
  \<open>cancelOrder\<close> calls for each item of the order, is not among the migrations. It is
  taken to add \<open>increment\<close> to the stock of the product with id \<open>product_id\<close>, as an
  \<open>UPDATE\<close> of \<open>products\<close> under the table's constraints; a \<open>NULL\<close> id matches no row.
\<close>

definition increment_product_stock :: "uuid option \<Rightarrow> int \<Rightarrow> db \<Rightarrow> pg_error + db" where
  "increment_product_stock product_id' increment d =
     update_products (\<lambda>q. Some (pr_id q) = product_id')
       (\<lambda>q. q\<lparr>stock := stock q + increment\<rparr>) d"

text \<open>The loop of \<open>cancelOrder\<close> over the items: the result of each call is not looked at.\<close>

fun restore_stock :: "order_items_row list \<Rightarrow> db \<Rightarrow> db" where
  "restore_stock [] d = d"
| "restore_stock (item # rest) d =
     (case increment_product_stock (oi_product_id item) (oi_quantity item) d of
        Inl e \<Rightarrow> restore_stock rest d
      | Inr d' \<Rightarrow> restore_stock rest d')"

text \<open>
  \<open>cancelOrder\<close>: \<open>.single()\<close> answers with an error unless exactly one row matches. The
  calls are separate requests, so a failure of the last one leaves the stock restored.
\<close>

definition cancelOrder :: "uuid \<Rightarrow> db \<Rightarrow> (js_error + unit) \<times> db" where
  "cancelOrder orderId d =
     (case filter (\<lambda>r. o_id r = orderId) (orders d) of
        [order] \<Rightarrow>
          if status order \<noteq> Some ''pending'' then
            (Inl (Error ''Cannot cancel order in current status''), d)
          else
            (let items = filter (\<lambda>i. oi_order_id i = Some orderId) (order_items d);
                 d1 = restore_stock items d
             in case update_orders (\<lambda>r. o_id r = orderId)
                       (\<lambda>r. r\<lparr>status := Some ''cancelled''\<rparr>) d1 of
                  Inl e \<Rightarrow> (Inl (PostgrestError e), d1)
                | Inr d2 \<Rightarrow> (Inr (), d2))
      | _ \<Rightarrow> (Inl SingleRowExpected, d))"

section \<open>verifyPayment (thunderClient.ts)\<close>

record PaymentVerificationRequest =
  req_order_id :: string
  req_trans_ref :: string
  req_amount :: int
  req_slip_url :: string
  req_slip_image_base64 :: "string option"






section \<open>Histories of operations\<close>

text \<open>
  An operation on the database: a call of one of the procedures or of the order store,
  or a plain write to \<open>profiles\<close>, \<open>store_settings\<close>, \<open>products\<close> or \<open>orders\<close> (an insert,
  or an update of the rows with an id by any function), under the tables' constraints.
\<close>

datatype db_op =
    PlaceOrderComplete place_order_args rpc_env
  | VerifyPaymentSlip uuid "string option" money "string option" timestamp
  | UpdateOrderStatus uuid OrderStatus
  | CancelOrder uuid
  | InsertProfile uuid
  | SetStoreOpen "bool option"
  | InsertProduct products_row
  | UpdateProduct uuid "products_row \<Rightarrow> products_row"
  | InsertOrder orders_row
  | UpdateOrder uuid "orders_row \<Rightarrow> orders_row"

definition keep :: "db \<Rightarrow> pg_error + db \<Rightarrow> db" where
  "keep d r = (case r of Inl e \<Rightarrow> d | Inr d' \<Rightarrow> d')"

fun exec :: "db \<Rightarrow> db_op \<Rightarrow> db" where
  "exec d (PlaceOrderComplete a env) = snd (place_order_complete a env d)"
| "exec d (VerifyPaymentSlip oid tr amt url t) = snd (verify_payment_slip oid tr amt url t d)"
| "exec d (UpdateOrderStatus oid s) = snd (updateOrderStatus oid s d)"
| "exec d (CancelOrder oid) = snd (cancelOrder oid d)"
| "exec d (InsertProfile u) =
     (if u \<in> set (profiles d) then d else d\<lparr>profiles := profiles d @ [u]\<rparr>)"
| "exec d (SetStoreOpen b) =
     d\<lparr>store_settings := map (\<lambda>s. s\<lparr>is_store_open := b\<rparr>) (store_settings d)\<rparr>"
| "exec d (InsertProduct r) = keep d (insert_products r d)"
| "exec d (UpdateProduct pid f) = keep d (update_products (\<lambda>q. pr_id q = pid) f d)"
| "exec d (InsertOrder r) = keep d (insert_orders r d)"
| "exec d (UpdateOrder oid f) = keep d (update_orders (\<lambda>r. o_id r = oid) f d)"

definition run :: "db_op list \<Rightarrow> db" where
  "run ops = foldl exec init_db ops"

section \<open>The shopping cart (cartStore.ts)\<close>

text \<open>
  The cart is a local Zustand store holding \<open>items: CartItem[]\<close>. JavaScript numbers
  are modelled as integers: quantities are item counts, prices are amounts in hundredths
  of a baht. A \<open>Product\<close> is what \<open>addItem\<close> reads of the product it is given.
\<close>

record Product =
  p_id :: uuid
  p_name :: string
  p_image_url :: "string option"
  p_price :: int
  p_stock :: int

record CartItem =
  product_id :: uuid
  product_name :: string
  product_image :: "string option"
  unit_price :: int
  quantity :: int
  max_quantity :: int

text \<open>\<open>addItem(product, quantity = 1)\<close>: a missing quantity defaults to 1.\<close>

definition addItem :: "Product \<Rightarrow> int option \<Rightarrow> CartItem list \<Rightarrow> CartItem list" where
  "addItem product quantity_arg items =
     (let qty = (case quantity_arg of None \<Rightarrow> 1 | Some q \<Rightarrow> q) in
      case find (\<lambda>item. product_id item = p_id product) items of
        Some existingItem \<Rightarrow>
          map (\<lambda>item. if product_id item = p_id product
                       then item\<lparr>quantity := quantity item + qty\<rparr>
                       else item) items
      | None \<Rightarrow>
          items @ [\<lparr>product_id = p_id product,
                    product_name = p_name product,
                    product_image = p_image_url product,
                    unit_price = p_price product,
                    quantity = qty,
                    max_quantity = p_stock product\<rparr>])"

definition removeItem :: "uuid \<Rightarrow> CartItem list \<Rightarrow> CartItem list" where
  "removeItem productId items = filter (\<lambda>item. product_id item \<noteq> productId) items"

definition updateQuantity :: "uuid \<Rightarrow> int \<Rightarrow> CartItem list \<Rightarrow> CartItem list" where
  "updateQuantity productId qty items =
     (if qty \<le> 0 then removeItem productId items
      else map (\<lambda>item. if product_id item = productId
                        then item\<lparr>quantity := min qty (max_quantity item)\<rparr>
                        else item) items)"

definition clearCart :: "CartItem list \<Rightarrow> CartItem list" where
  "clearCart items = []"

text \<open>A call of one of the four cart actions, and a sequence of calls run from a cart.\<close>

datatype cart_action =
    AddItem Product "int option"
  | RemoveItem uuid
  | UpdateQuantity uuid int
  | ClearCart

fun cart_step :: "CartItem list \<Rightarrow> cart_action \<Rightarrow> CartItem list" where
  "cart_step items (AddItem product q) = addItem product q items"
| "cart_step items (RemoveItem pid) = removeItem pid items"
| "cart_step items (UpdateQuantity pid q) = updateQuantity pid q items"
| "cart_step items ClearCart = clearCart items"

definition cart_run :: "cart_action list \<Rightarrow> CartItem list" where
  "cart_run acts = foldl cart_step [] acts"

section \<open>Notions used to state the properties\<close>

text \<open>The transaction references the rows of \<open>orders\<close> carry, \<open>NULL\<close> left out.\<close>

definition trans_refs :: "orders_row list \<Rightarrow> string list" where
  "trans_refs rows = List.map_filter trans_ref rows"

text \<open>
  What the declared constraints say of a table as a whole. Every write keeps them, so
  they hold in every state a history of operations reaches.
\<close>

definition products_ok :: "products_row list \<Rightarrow> bool" where
  "products_ok rows \<longleftrightarrow>
     list_all (\<lambda>r. 0 \<le> price r \<and> 0 \<le> stock r) rows \<and> distinct (map pr_id rows)"

definition orders_ok :: "orders_row list \<Rightarrow> bool" where
  "orders_ok rows \<longleftrightarrow>
     list_all (\<lambda>r. status_allowed (status r) \<and> 0 \<le> total_price r) rows \<and>
     distinct (map o_id rows) \<and>
     distinct (map order_number rows) \<and>
     distinct (trans_refs rows)"

definition order_items_ok :: "order_items_row list \<Rightarrow> bool" where
  "order_items_ok rows \<longleftrightarrow> list_all (\<lambda>r. 0 < oi_quantity r \<and> 0 \<le> oi_unit_price r) rows"

definition db_ok :: "db \<Rightarrow> bool" where
  "db_ok d \<longleftrightarrow> products_ok (products d) \<and> orders_ok (orders d) \<and> order_items_ok (order_items d)"

text \<open>The quantity a list of items requests of a product, in all.\<close>

definition ordered_quantity :: "order_item list \<Rightarrow> uuid \<Rightarrow> int" where
  "ordered_quantity items pid =
     sum_list (map item_quantity (filter (\<lambda>i. item_product_id i = pid) items))"

definition product_available :: "db \<Rightarrow> uuid \<Rightarrow> bool" where
  "product_available d pid = list_ex (\<lambda>p. pr_id p = pid \<and> is_available p = Some True) (products d)"

definition decrement_stock :: "order_item list \<Rightarrow> products_row list \<Rightarrow> products_row list" where
  "decrement_stock items rows =
     map (\<lambda>p. p\<lparr>stock := stock p - ordered_quantity items (pr_id p)\<rparr>) rows"

text \<open>
  When \<open>place_order_complete\<close> places an order: the store is not closed, every requested
  product is available, no product is requested beyond its stock, and the new rows
  satisfy the constraints of \<open>orders\<close> and \<open>order_items\<close>.
\<close>

definition order_accepted :: "place_order_args \<Rightarrow> rpc_env \<Rightarrow> db \<Rightarrow> bool" where
  "order_accepted a env d \<longleftrightarrow>
     store_open_flag d \<noteq> Some False \<and>
     list_all (\<lambda>i. product_available d (item_product_id i)) (p_order_items a) \<and>
     list_all (\<lambda>p. ordered_quantity (p_order_items a) (pr_id p) \<le> stock p) (products d) \<and>
     list_all (\<lambda>i. 0 < item_quantity i \<and> 0 \<le> item_unit_price i) (p_order_items a) \<and>
     0 \<le> p_total_price a \<and>
     new_uuid env \<notin> set (map o_id (orders d)) \<and>
     make_order_number env \<notin> set (map order_number (orders d)) \<and>
     (p_trans_ref a = None \<or> p_trans_ref a \<notin> set (map trans_ref (orders d))) \<and>
     references_profile d (p_user_id a)"

text \<open>The state after an order was placed, and the two shapes of the returned object.\<close>

definition order_placed_db :: "place_order_args \<Rightarrow> rpc_env \<Rightarrow> db \<Rightarrow> db" where
  "order_placed_db a env d =
     d\<lparr>products := decrement_stock (p_order_items a) (products d),
       orders := orders d @ [new_order_row a env],
       order_items := order_items d @ map (new_order_item_row (new_uuid env)) (p_order_items a),
       activity_logs := activity_logs d @ [order_created_log a env]\<rparr>"

definition order_placed_json :: "rpc_env \<Rightarrow> json" where
  "order_placed_json env =
     JObj [(''success'', JBool True),
           (''order_id'', JStr (new_uuid env)),
           (''order_number'', JStr (make_order_number env)),
           (''message'', JStr ''Order placed successfully'')]"

definition failure_json :: "string \<Rightarrow> json" where
  "failure_json msg = JObj [(''success'', JBool False), (''error'', JStr msg)]"

text \<open>The order a call of \<open>verify_payment_slip\<close> is about: present and not yet verified.\<close>

definition unverified_order :: "db \<Rightarrow> uuid \<Rightarrow> bool" where
  "unverified_order d oid = list_ex (\<lambda>r. o_id r = oid \<and> trans_ref r = None) (orders d)"

definition reference_used :: "db \<Rightarrow> string \<Rightarrow> bool" where
  "reference_used d t = list_ex (\<lambda>r. trans_ref r = Some t) (orders d)"

definition mark_paid ::
  "string \<Rightarrow> string option \<Rightarrow> timestamp \<Rightarrow> orders_row \<Rightarrow> orders_row" where
  "mark_paid t url at r =
     r\<lparr>status := Some ''paid'', trans_ref := Some t, thunder_verified := Some True,
       verified_at := Some at, payment_slip_url := url\<rparr>"

definition payment_verified_json :: "uuid \<Rightarrow> json" where
  "payment_verified_json oid =
     JObj [(''success'', JBool True),
           (''message'', JStr ''Payment verified successfully''),
           (''order_id'', JStr oid)]"

definition payment_verified_log :: "uuid \<Rightarrow> string \<Rightarrow> money \<Rightarrow> activity_logs_row" where
  "payment_verified_log oid t amount =
     payment_log ''PAYMENT_VERIFIED'' oid
       (Some (JObj [(''trans_ref'', JStr t), (''amount'', JNum amount)])) None"

text \<open>The quantity the items of an order give back to a product, in all.\<close>

definition restored_quantity :: "order_items_row list \<Rightarrow> uuid \<Rightarrow> int" where
  "restored_quantity items pid =
     sum_list (map oi_quantity (filter (\<lambda>i. oi_product_id i = Some pid) items))"

definition increment_stock :: "order_items_row list \<Rightarrow> products_row list \<Rightarrow> products_row list" where
  "increment_stock items rows =
     map (\<lambda>p. p\<lparr>stock := stock p + restored_quantity items (pr_id p)\<rparr>) rows"

definition items_of_order :: "db \<Rightarrow> uuid \<Rightarrow> order_items_row list" where
  "items_of_order d oid = filter (\<lambda>i. oi_order_id i = Some oid) (order_items d)"

section \<open>Sample data\<close>

text \<open>
  A shop with one profile and one available product in stock, the same shop closed, and
  a request for two pieces of the product.
\<close>

definition shop_db :: db where
  "shop_db =
     \<lparr>store_settings = [\<lparr>is_store_open = Some True, flat_shipping_fee = Some 0\<rparr>],
      profiles = [''u1''],
      products = [\<lparr>pr_id = ''p1'', price = 10000, stock = 5, is_available = Some True\<rparr>],
      orders = [],
      order_items = [],
      activity_logs = []\<rparr>"

definition closed_shop_db :: db where
  "closed_shop_db =
     shop_db\<lparr>store_settings := [\<lparr>is_store_open = Some False, flat_shipping_fee = Some 0\<rparr>]\<rparr>"

definition sample_args :: place_order_args where
  "sample_args =
     \<lparr>p_user_id = Some ''u1'',
      p_shipping_address = ''12 Market Road'',
      p_shipping_coordinates = None,
      p_total_price = 20000,
      p_shipping_fee = 5000,
      p_order_items = [\<lparr>item_product_id = ''p1'', item_quantity = 2, item_unit_price = 10000\<rparr>],
      p_payment_slip_url = None,
      p_trans_ref = None\<rparr>"

definition sample_env :: rpc_env where
  "sample_env = \<lparr>now = 1000, now_yymmdd = ''261102'', random_draw = 4213, new_uuid = ''o1''\<rparr>"

text \<open>The shop after the sample order was placed, and after its payment was verified.\<close>

definition placed_db :: db where
  "placed_db = snd (place_order_complete sample_args sample_env shop_db)"

definition paid_db :: db where
  "paid_db = snd (verify_payment_slip ''o1'' (Some ''TX-0001'') 25000 (Some ''slips/1.png'') 2000 placed_db)"

text \<open>A history that sets the shop up from the initial state, and one that then places the sample order.\<close>

definition shop_history :: "db_op list" where
  "shop_history =
     [InsertProfile ''u1'',
      InsertProduct \<lparr>pr_id = ''p1'', price = 10000, stock = 5, is_available = Some True\<rparr>]"

definition sample_history :: "db_op list" where
  "sample_history = shop_history @ [PlaceOrderComplete sample_args sample_env]"

text \<open>A second order, placed after the first was paid.\<close>

definition sample_env2 :: rpc_env where
  "sample_env2 = \<lparr>now = 3000, now_yymmdd = ''261102'', random_draw = 77, new_uuid = ''o2''\<rparr>"

definition two_orders_db :: db where
  "two_orders_db = snd (place_order_complete sample_args sample_env2 paid_db)"

definition paid_history :: "db_op list" where
  "paid_history =
     sample_history @
     [VerifyPaymentSlip ''o1'' (Some ''TX-0001'') 25000 (Some ''slips/1.png'') 2000]"

section \<open>Properties of the statements\<close>

lemma trans_refs_Nil [simp]: "trans_refs [] = []"
  by (simp add: trans_refs_def map_filter_simps)

lemma trans_refs_Cons [simp]:
  "trans_refs (r # rows) = (case trans_ref r of None \<Rightarrow> trans_refs rows | Some t \<Rightarrow> t # trans_refs rows)"
  by (simp add: trans_refs_def map_filter_simps split: option.splits)

lemma trans_refs_append [simp]: "trans_refs (xs @ ys) = trans_refs xs @ trans_refs ys"
  by (induction xs) (auto split: option.splits)

lemma set_trans_refs: "set (trans_refs rows) = {t. Some t \<in> trans_ref ` set rows}"
  by (induction rows) (auto split: option.splits)

lemma update_where_result:
  "update_where P f chk seen rows = Inr res \<Longrightarrow>
   res = seen @ map (\<lambda>r. if P r then f r else r) rows"
proof (induction rows arbitrary: seen)
  case Nil
  then show ?case by simp
next
  case (Cons r rest)
  show ?case
  proof (cases "P r")
    case True
    with Cons.prems have "update_where P f chk (seen @ [f r]) rest = Inr res"
      by (auto split: option.splits)
    from Cons.IH [OF this] True show ?thesis by simp
  next
    case False
    with Cons.prems have "update_where P f chk (seen @ [r]) rest = Inr res" by simp
    from Cons.IH [OF this] False show ?thesis by simp
  qed
qed

lemma update_where_no_match:
  "\<forall>r\<in>set rows. \<not> P r \<Longrightarrow> update_where P f chk seen rows = Inr (seen @ rows)"
  by (induction rows arbitrary: seen) auto

lemma products_constraints_None:
  "products_constraints others r = None \<longleftrightarrow>
     0 \<le> price r \<and> 0 \<le> stock r \<and> pr_id r \<notin> pr_id ` set others"
  by (auto simp: products_constraints_def)

lemma orders_constraints_None:
  "orders_constraints others r = None \<longleftrightarrow>
     status_allowed (status r) \<and> 0 \<le> total_price r \<and> o_id r \<notin> o_id ` set others \<and>
     order_number r \<notin> order_number ` set others \<and>
     (trans_ref r = None \<or> trans_ref r \<notin> trans_ref ` set others)"
  by (auto simp: orders_constraints_def)

lemma products_ok_replace:
  "products_ok (seen @ r # rest) \<Longrightarrow> products_constraints (seen @ rest) r' = None \<Longrightarrow>
   products_ok (seen @ r' # rest)"
  by (auto simp: products_ok_def products_constraints_None)

lemma update_where_products_ok:
  "products_ok (seen @ rows) \<Longrightarrow>
   update_where P f (\<lambda>others old new. products_constraints others new) seen rows = Inr res \<Longrightarrow>
   products_ok res"
proof (induction rows arbitrary: seen)
  case Nil
  then show ?case by simp
next
  case (Cons r rest)
  show ?case
  proof (cases "P r")
    case True
    with Cons.prems(2) have c: "products_constraints (seen @ rest) (f r) = None"
      and u: "update_where P f (\<lambda>others old new. products_constraints others new)
                (seen @ [f r]) rest = Inr res"
      by (auto split: option.splits)
    from Cons.prems(1) c have "products_ok ((seen @ [f r]) @ rest)"
      using products_ok_replace by fastforce
    with u show ?thesis by (rule Cons.IH [rotated])
  next
    case False
    with Cons.prems(2) have
      "update_where P f (\<lambda>others old new. products_constraints others new)
         (seen @ [r]) rest = Inr res" by simp
    moreover from Cons.prems(1) have "products_ok ((seen @ [r]) @ rest)" by simp
    ultimately show ?thesis by (rule Cons.IH [rotated])
  qed
qed

lemma orders_ok_replace:
  "orders_ok (seen @ r # rest) \<Longrightarrow> orders_constraints (seen @ rest) r' = None \<Longrightarrow>
   orders_ok (seen @ r' # rest)"
  by (auto simp: orders_ok_def orders_constraints_None set_trans_refs split: option.splits)

lemma orders_update_check_None:
  "orders_update_check d others old new = None \<Longrightarrow> orders_constraints others new = None"
  by (auto simp: orders_update_check_def split: option.splits)

lemma update_where_orders_ok:
  "orders_ok (seen @ rows) \<Longrightarrow>
   update_where P f (orders_update_check d) seen rows = Inr res \<Longrightarrow>
   orders_ok res"
proof (induction rows arbitrary: seen)
  case Nil
  then show ?case by simp
next
  case (Cons r rest)
  show ?case
  proof (cases "P r")
    case True
    with Cons.prems(2) have c': "orders_update_check d (seen @ rest) r (f r) = None"
      and u: "update_where P f (orders_update_check d) (seen @ [f r]) rest = Inr res"
      by (auto split: option.splits)
    from c' have c: "orders_constraints (seen @ rest) (f r) = None"
      by (rule orders_update_check_None)
    from Cons.prems(1) c have "orders_ok ((seen @ [f r]) @ rest)"
      using orders_ok_replace by fastforce
    with u show ?thesis by (rule Cons.IH [rotated])
  next
    case False
    with Cons.prems(2) have
      "update_where P f (orders_update_check d) (seen @ [r]) rest = Inr res" by simp
    moreover from Cons.prems(1) have "orders_ok ((seen @ [r]) @ rest)" by simp
    ultimately show ?thesis by (rule Cons.IH [rotated])
  qed
qed

lemma update_where_skip:
  "\<forall>x\<in>set xs. \<not> P x \<Longrightarrow>
   update_where P f chk seen (xs @ rows) = update_where P f chk (seen @ xs) rows"
  by (induction xs arbitrary: seen) auto

lemma update_where_single:
  assumes "\<forall>x\<in>set xs. \<not> P x" and "\<forall>y\<in>set ys. \<not> P y" and "P r"
  shows "update_where P f chk [] (xs @ r # ys) =
           (case chk (xs @ ys) r (f r) of Some e \<Rightarrow> Inl e | None \<Rightarrow> Inr (xs @ f r # ys))"
proof -
  have "update_where P f chk [] (xs @ r # ys) = update_where P f chk xs (r # ys)"
    using update_where_skip [OF assms(1), of f chk "[]" "r # ys"] by simp
  also have "\<dots> = (case chk (xs @ ys) r (f r) of Some e \<Rightarrow> Inl e
                    | None \<Rightarrow> update_where P f chk (xs @ [f r]) ys)"
    using assms(3) by simp
  also have "update_where P f chk (xs @ [f r]) ys = Inr ((xs @ [f r]) @ ys)"
    using assms(2) by (rule update_where_no_match)
  finally show ?thesis by (simp split: option.splits)
qed

lemma split_by_key:
  assumes "distinct (map k rows)" and "r \<in> set rows"
  obtains xs ys where "rows = xs @ r # ys"
    and "\<forall>x\<in>set xs. k x \<noteq> k r" and "\<forall>y\<in>set ys. k y \<noteq> k r"
proof -
  from assms(2) obtain xs ys where s: "rows = xs @ r # ys" by (auto dest: split_list)
  with assms(1) have "\<forall>x\<in>set xs. k x \<noteq> k r" and "\<forall>y\<in>set ys. k y \<noteq> k r"
    by (auto simp: image_iff)
  with s show thesis by (rule that)
qed

lemma map_single:
  "\<forall>x\<in>set xs. k x \<noteq> v \<Longrightarrow> \<forall>y\<in>set ys. k y \<noteq> v \<Longrightarrow> k r = v \<Longrightarrow>
   map (\<lambda>x. if k x = v then f x else x) (xs @ r # ys) = xs @ f r # ys"
  by (simp add: map_idI)

subsection \<open>The tables a statement leaves alone, and consistency\<close>

lemma update_products_result:
  "update_products P f d = Inr d' \<Longrightarrow>
   d' = d\<lparr>products := map (\<lambda>r. if P r then f r else r) (products d)\<rparr>"
  by (auto simp: update_products_def split: sum.splits dest: update_where_result)

lemma update_products_ok:
  "update_products P f d = Inr d' \<Longrightarrow> products_ok (products d) \<Longrightarrow> products_ok (products d')"
  by (auto simp: update_products_def split: sum.splits
           dest: update_where_products_ok [of "[]", simplified])

lemma insert_products_ok:
  "insert_products r d = Inr d' \<Longrightarrow> products_ok (products d) \<Longrightarrow> products_ok (products d')"
  by (auto simp: insert_products_def products_ok_def products_constraints_None
           split: option.splits)

lemma update_orders_result:
  "update_orders P f d = Inr d' \<Longrightarrow>
   d' = d\<lparr>orders := map (\<lambda>r. if P r then f r else r) (orders d)\<rparr>"
  by (auto simp: update_orders_def split: sum.splits dest: update_where_result)

lemma update_orders_ok:
  "update_orders P f d = Inr d' \<Longrightarrow> orders_ok (orders d) \<Longrightarrow> orders_ok (orders d')"
  by (auto simp: update_orders_def split: sum.splits
           dest: update_where_orders_ok [of "[]", simplified])

lemma insert_orders_result:
  "insert_orders r d = Inr d' \<longleftrightarrow>
   orders_constraints (orders d) r = None \<and> references_profile d (user_id r) \<and>
   d' = d\<lparr>orders := orders d @ [r]\<rparr>"
  by (auto simp: insert_orders_def orders_fk_def split: option.splits)

lemma insert_orders_ok:
  "insert_orders r d = Inr d' \<Longrightarrow> orders_ok (orders d) \<Longrightarrow> orders_ok (orders d')"
  by (auto simp: insert_orders_result orders_ok_def orders_constraints_None set_trans_refs
           split: option.splits)

lemma insert_order_items_result:
  "insert_order_items rs d = Inr d' \<longleftrightarrow>
   (\<forall>r\<in>set rs. order_items_constraints r = None) \<and>
   d' = d\<lparr>order_items := order_items d @ rs\<rparr>"
  by (induction rs arbitrary: d) (auto split: option.splits)

lemma order_items_constraints_None:
  "order_items_constraints r = None \<longleftrightarrow> 0 < oi_quantity r \<and> 0 \<le> oi_unit_price r"
  by (auto simp: order_items_constraints_def)

lemma insert_activity_logs_result:
  "insert_activity_logs r d = Inr d' \<longleftrightarrow>
   references_profile d (log_user_id r) \<and> d' = d\<lparr>activity_logs := activity_logs d @ [r]\<rparr>"
  by (auto simp: insert_activity_logs_def)

lemma update_products_frame:
  "update_products P f d = Inr d' \<Longrightarrow>
   store_settings d' = store_settings d \<and> profiles d' = profiles d \<and>
   orders d' = orders d \<and> order_items d' = order_items d \<and>
   activity_logs d' = activity_logs d"
  by (auto dest: update_products_result)

lemma process_order_items_frame:
  "process_order_items items d = Inr d' \<Longrightarrow>
   store_settings d' = store_settings d \<and> profiles d' = profiles d \<and>
   orders d' = orders d \<and> order_items d' = order_items d \<and>
   activity_logs d' = activity_logs d"
proof (induction items arbitrary: d)
  case Nil
  then show ?case by simp
next
  case (Cons i rest)
  from Cons.prems obtain d1 where
    u: "update_products (\<lambda>q. pr_id q = item_product_id i)
          (\<lambda>q. q\<lparr>stock := stock q - item_quantity i\<rparr>) d = Inr d1"
    and r: "process_order_items rest d1 = Inr d'"
    by (auto simp: Let_def split: option.splits if_splits sum.splits)
  from Cons.IH [OF r] update_products_frame [OF u] show ?case by simp
qed

lemma process_order_items_ok:
  "process_order_items items d = Inr d' \<Longrightarrow> products_ok (products d) \<Longrightarrow>
   products_ok (products d')"
proof (induction items arbitrary: d)
  case Nil
  then show ?case by simp
next
  case (Cons i rest)
  from Cons.prems(1) obtain d1 where
    u: "update_products (\<lambda>q. pr_id q = item_product_id i)
          (\<lambda>q. q\<lparr>stock := stock q - item_quantity i\<rparr>) d = Inr d1"
    and r: "process_order_items rest d1 = Inr d'"
    by (auto simp: Let_def split: option.splits if_splits sum.splits)
  from update_products_ok [OF u Cons.prems(2)] have "products_ok (products d1)" .
  with r show ?case by (rule Cons.IH)
qed

subsection \<open>Updates of the row with an id\<close>

lemma update_products_by_id:
  assumes "products_ok (products d)" and "p \<in> set (products d)" and "pr_id p = pid"
  shows "update_products (\<lambda>q. pr_id q = pid) f d =
           (case products_constraints (filter (\<lambda>q. pr_id q \<noteq> pid) (products d)) (f p) of
              Some e \<Rightarrow> Inl e
            | None \<Rightarrow> Inr (d\<lparr>products := map (\<lambda>q. if pr_id q = pid then f q else q) (products d)\<rparr>))"
proof -
  from assms(1) have "distinct (map pr_id (products d))" by (simp add: products_ok_def)
  from this assms(2) obtain xs ys where s: "products d = xs @ p # ys"
    and xs: "\<forall>x\<in>set xs. pr_id x \<noteq> pr_id p" and ys: "\<forall>y\<in>set ys. pr_id y \<noteq> pr_id p"
    by (rule split_by_key)
  from xs ys assms(3) have f: "filter (\<lambda>q. pr_id q \<noteq> pid) (products d) = xs @ ys"
    by (simp add: s filter_id_conv)
  from xs ys assms(3) have m: "map (\<lambda>q. if pr_id q = pid then f q else q) (products d) = xs @ f p # ys"
    unfolding s by (intro map_single) auto
  from xs ys assms(3) have
    "update_where (\<lambda>q. pr_id q = pid) f (\<lambda>others old new. products_constraints others new) []
       (xs @ p # ys) =
     (case products_constraints (xs @ ys) (f p) of Some e \<Rightarrow> Inl e | None \<Rightarrow> Inr (xs @ f p # ys))"
    by (intro update_where_single) auto
  then show ?thesis
    unfolding update_products_def f m s [symmetric] by (simp add: s split: option.splits)
qed

lemma update_products_no_row:
  "\<forall>p\<in>set (products d). \<not> P p \<Longrightarrow> update_products P f d = Inr d"
  by (simp add: update_products_def update_where_no_match [of _ P f _ "[]", simplified])

lemma update_orders_by_id:
  assumes "orders_ok (orders d)" and "r \<in> set (orders d)" and "o_id r = oid"
  shows "update_orders (\<lambda>x. o_id x = oid) f d =
           (case orders_update_check d (filter (\<lambda>x. o_id x \<noteq> oid) (orders d)) r (f r) of
              Some e \<Rightarrow> Inl e
            | None \<Rightarrow> Inr (d\<lparr>orders := map (\<lambda>x. if o_id x = oid then f x else x) (orders d)\<rparr>))"
proof -
  from assms(1) have "distinct (map o_id (orders d))" by (simp add: orders_ok_def)
  from this assms(2) obtain xs ys where s: "orders d = xs @ r # ys"
    and xs: "\<forall>x\<in>set xs. o_id x \<noteq> o_id r" and ys: "\<forall>y\<in>set ys. o_id y \<noteq> o_id r"
    by (rule split_by_key)
  from xs ys assms(3) have f: "filter (\<lambda>x. o_id x \<noteq> oid) (orders d) = xs @ ys"
    by (simp add: s filter_id_conv)
  from xs ys assms(3) have m: "map (\<lambda>x. if o_id x = oid then f x else x) (orders d) = xs @ f r # ys"
    unfolding s by (intro map_single) auto
  from xs ys assms(3) have
    "update_where (\<lambda>x. o_id x = oid) f (orders_update_check d) [] (xs @ r # ys) =
     (case orders_update_check d (xs @ ys) r (f r) of Some e \<Rightarrow> Inl e | None \<Rightarrow> Inr (xs @ f r # ys))"
    by (intro update_where_single) auto
  then show ?thesis
    unfolding update_orders_def f m s [symmetric] by (simp add: s split: option.splits)
qed

lemma update_orders_no_row:
  "\<forall>r\<in>set (orders d). \<not> P r \<Longrightarrow> update_orders P f d = Inr d"
  by (simp add: update_orders_def update_where_no_match [of _ P f _ "[]", simplified])

subsection \<open>The loop of place_order_complete\<close>

lemma ordered_quantity_Nil [simp]: "ordered_quantity [] pid = 0"
  by (simp add: ordered_quantity_def)

lemma ordered_quantity_Cons [simp]:
  "ordered_quantity (i # items) pid =
     (if item_product_id i = pid then item_quantity i else 0) + ordered_quantity items pid"
  by (simp add: ordered_quantity_def)

lemma ordered_quantity_nonneg:
  "\<forall>i\<in>set items. 0 < item_quantity i \<Longrightarrow> 0 \<le> ordered_quantity items pid"
  by (induction items) auto

lemma decrement_stock_Nil [simp]: "decrement_stock [] rows = rows"
  by (simp add: decrement_stock_def map_idI)

lemma ball_set_map: "(\<forall>y\<in>set (map f xs). Q y) \<longleftrightarrow> (\<forall>x\<in>set xs. Q (f x))"
  by simp

lemma list_ex_map_same:
  "(\<And>x. x \<in> set xs \<Longrightarrow> P (f x) = P x) \<Longrightarrow> list_ex P (map f xs) = list_ex P xs"
  by (induction xs) auto

lemma product_available_iff:
  "product_available d pid \<longleftrightarrow>
     (\<exists>p\<in>set (products d). pr_id p = pid \<and> is_available p = Some True)"
  by (simp add: product_available_def list_ex_iff)

lemma find_available:
  assumes "products_ok rows"
  shows "find (\<lambda>p. pr_id p = pid \<and> is_available p = Some True) rows = Some p \<longleftrightarrow>
           p \<in> set rows \<and> pr_id p = pid \<and> is_available p = Some True"
proof
  assume "find (\<lambda>p. pr_id p = pid \<and> is_available p = Some True) rows = Some p"
  then show "p \<in> set rows \<and> pr_id p = pid \<and> is_available p = Some True"
    by (auto simp: find_Some_iff)
next
  assume a: "p \<in> set rows \<and> pr_id p = pid \<and> is_available p = Some True"
  then obtain x where x: "find (\<lambda>p. pr_id p = pid \<and> is_available p = Some True) rows = Some x"
    by (cases "find (\<lambda>p. pr_id p = pid \<and> is_available p = Some True) rows")
       (auto simp: find_None_iff)
  then have "x \<in> set rows" and "pr_id x = pid" by (auto simp: find_Some_iff)
  moreover from assms have "inj_on pr_id (set rows)"
    by (simp add: products_ok_def distinct_map)
  ultimately have "x = p" using a by (metis inj_onD)
  with x show "find (\<lambda>p. pr_id p = pid \<and> is_available p = Some True) rows = Some p" by simp
qed

lemma decrement_update:
  assumes ok: "products_ok (products d)"
    and p: "p \<in> set (products d)" "pr_id p = item_product_id i"
    and q: "item_quantity i \<le> stock p"
  shows "update_products (\<lambda>x. pr_id x = item_product_id i)
           (\<lambda>x. x\<lparr>stock := stock x - item_quantity i\<rparr>) d =
         Inr (d\<lparr>products := map (\<lambda>x. if pr_id x = item_product_id i
                                      then x\<lparr>stock := stock x - item_quantity i\<rparr> else x)
                               (products d)\<rparr>)"
proof -
  from ok p(1) have "0 \<le> price p"
    by (auto simp: products_ok_def list_all_iff)
  with q p(2) have
    "products_constraints (filter (\<lambda>x. pr_id x \<noteq> item_product_id i) (products d))
       (p\<lparr>stock := stock p - item_quantity i\<rparr>) = None"
    by (auto simp: products_constraints_None)
  with update_products_by_id [OF ok p(1) p(2), of "\<lambda>x. x\<lparr>stock := stock x - item_quantity i\<rparr>"]
  show ?thesis by simp
qed

lemma process_order_items_step:
  assumes ok: "products_ok (products d)"
    and p: "p \<in> set (products d)" "pr_id p = item_product_id i" "is_available p = Some True"
    and q: "item_quantity i \<le> stock p"
  shows "process_order_items (i # rest) d =
           process_order_items rest
             (d\<lparr>products := map (\<lambda>x. if pr_id x = item_product_id i
                                       then x\<lparr>stock := stock x - item_quantity i\<rparr> else x)
                                (products d)\<rparr>)"
proof -
  have f: "find (\<lambda>x. pr_id x = item_product_id i \<and> is_available x = Some True) (products d) = Some p"
    using ok p by (simp add: find_available)
  with q decrement_update [OF ok p(1) p(2) q] show ?thesis by (simp add: Let_def)
qed

lemma process_order_items_iff:
  assumes "products_ok (products d)" and "\<forall>i\<in>set items. 0 < item_quantity i"
  shows "process_order_items items d = Inr d' \<longleftrightarrow>
           (\<forall>i\<in>set items. product_available d (item_product_id i)) \<and>
           (\<forall>p\<in>set (products d). ordered_quantity items (pr_id p) \<le> stock p) \<and>
           d' = d\<lparr>products := decrement_stock items (products d)\<rparr>"
  using assms
proof (induction items arbitrary: d)
  case Nil
  then show ?case by (auto simp: products_ok_def list_all_iff)
next
  case (Cons i rest)
  let ?pid = "item_product_id i" and ?q = "item_quantity i"
  let ?P = "\<lambda>x. pr_id x = ?pid \<and> is_available x = Some True"
  from Cons.prems(2) have qpos: "0 < ?q" and rest_pos: "\<forall>i\<in>set rest. 0 < item_quantity i"
    by simp_all
  show ?case
  proof (cases "find ?P (products d)")
    case None
    then have "\<not> product_available d ?pid"
      by (auto simp: product_available_iff find_None_iff)
    with None show ?thesis by (simp add: Let_def)
  next
    case (Some p)
    with Cons.prems(1) have p: "p \<in> set (products d)" "pr_id p = ?pid" "is_available p = Some True"
      by (simp_all add: find_available)
    then have av: "product_available d ?pid" by (auto simp: product_available_iff)
    show ?thesis
    proof (cases "?q \<le> stock p")
      case False
      moreover have "0 \<le> ordered_quantity rest ?pid"
        using rest_pos by (rule ordered_quantity_nonneg)
      ultimately have "\<not> ordered_quantity (i # rest) (pr_id p) \<le> stock p"
        using p(2) by simp
      with p(1) have "\<not> (\<forall>p\<in>set (products d). ordered_quantity (i # rest) (pr_id p) \<le> stock p)"
        by blast
      with Some False show ?thesis by (simp add: Let_def)
    next
      case True
      let ?dec = "\<lambda>x. if pr_id x = ?pid then x\<lparr>stock := stock x - ?q\<rparr> else x"
      let ?d1 = "d\<lparr>products := map ?dec (products d)\<rparr>"
      have step: "process_order_items (i # rest) d = process_order_items rest ?d1"
        using Cons.prems(1) p True by (rule process_order_items_step)
      have ok1: "products_ok (products ?d1)"
        using update_products_ok [OF decrement_update [OF Cons.prems(1) p(1) p(2) True] Cons.prems(1)] .
      have av1: "\<And>pid. product_available ?d1 pid = product_available d pid"
        by (simp add: product_available_def list_ex_map_same)
      have eq1: "products ?d1 = map ?dec (products d)" by simp
      have "(\<forall>x\<in>set (products ?d1). ordered_quantity rest (pr_id x) \<le> stock x) \<longleftrightarrow>
            (\<forall>x\<in>set (products d). ordered_quantity rest (pr_id (?dec x)) \<le> stock (?dec x))"
        unfolding eq1 by (rule ball_set_map)
      also have "\<dots> \<longleftrightarrow> (\<forall>x\<in>set (products d). ordered_quantity (i # rest) (pr_id x) \<le> stock x)"
        by (intro ball_cong refl) auto
      finally have le1:
        "(\<forall>x\<in>set (products ?d1). ordered_quantity rest (pr_id x) \<le> stock x) \<longleftrightarrow>
         (\<forall>x\<in>set (products d). ordered_quantity (i # rest) (pr_id x) \<le> stock x)" .
      have dec1: "?d1\<lparr>products := decrement_stock rest (products ?d1)\<rparr> =
                  d\<lparr>products := decrement_stock (i # rest) (products d)\<rparr>"
        by (simp add: decrement_stock_def)
      from Cons.IH [OF ok1 rest_pos] step av show ?thesis
        unfolding av1 le1 dec1 by simp
    qed
  qed
qed

subsection \<open>The block of place_order_complete\<close>

lemma references_profile_cong:
  "profiles d' = profiles d \<Longrightarrow> references_profile d' u = references_profile d u"
  by (simp add: references_profile_def split: option.splits)

lemma references_profile_update [simp]:
  "references_profile (d\<lparr>products := a\<rparr>) u = references_profile d u"
  "references_profile (d\<lparr>orders := b\<rparr>) u = references_profile d u"
  "references_profile (d\<lparr>order_items := c\<rparr>) u = references_profile d u"
  "references_profile (d\<lparr>activity_logs := e\<rparr>) u = references_profile d u"
  "references_profile (d\<lparr>store_settings := g\<rparr>) u = references_profile d u"
  by (simp_all add: references_profile_def split: option.splits)

lemma place_order_block_accepted:
  assumes ok: "db_ok d" and acc: "order_accepted a env d"
  shows "place_order_block a env d = Inr (order_placed_json env, order_placed_db a env d)"
proof -
  let ?items = "p_order_items a"
  let ?d1 = "d\<lparr>products := decrement_stock ?items (products d)\<rparr>"
  let ?d2 = "?d1\<lparr>orders := orders ?d1 @ [new_order_row a env]\<rparr>"
  let ?d3 = "?d2\<lparr>order_items := order_items ?d2 @ map (new_order_item_row (new_uuid env)) ?items\<rparr>"
  let ?d4 = "?d3\<lparr>activity_logs := activity_logs ?d3 @ [order_created_log a env]\<rparr>"
  from ok have pok: "products_ok (products d)" by (simp add: db_ok_def)
  from acc have pos: "\<forall>i\<in>set ?items. 0 < item_quantity i"
    by (simp add: order_accepted_def list_all_iff)
  from acc have s: "store_open_flag d \<noteq> Some False" by (simp add: order_accepted_def)
  from acc have "process_order_items ?items d = Inr ?d1"
    unfolding process_order_items_iff [OF pok pos]
    by (simp add: order_accepted_def list_all_iff)
  moreover from acc have "insert_orders (new_order_row a env) ?d1 = Inr ?d2"
    unfolding insert_orders_result
    by (simp add: order_accepted_def orders_constraints_None new_order_row_def
          status_allowed_def order_statuses_def)
  moreover from acc have
    "insert_order_items (map (new_order_item_row (new_uuid env)) ?items) ?d2 = Inr ?d3"
    unfolding insert_order_items_result
    by (simp add: order_accepted_def list_all_iff order_items_constraints_None
          new_order_item_row_def)
  moreover from acc have "insert_activity_logs (order_created_log a env) ?d3 = Inr ?d4"
    unfolding insert_activity_logs_result
    by (simp add: order_accepted_def order_created_log_def)
  moreover have "?d4 = order_placed_db a env d" by (simp add: order_placed_db_def)
  ultimately show ?thesis
    using s by (simp add: place_order_block_def order_placed_json_def jsonb_build_object_def)
qed



subsection \<open>Error messages\<close>

lemma SQLERRM_empty: "SQLERRM e = [] \<longleftrightarrow> e = RaisedException []"
  by (cases e) (simp_all add: dq_def)

lemma update_where_error:
  "update_where P f chk seen rows = Inl e \<Longrightarrow> \<exists>others old new. chk others old new = Some e"
proof (induction rows arbitrary: seen)
  case Nil
  then show ?case by simp
next
  case (Cons r rest)
  then show ?case by (auto split: if_splits option.splits)
qed

lemma update_products_error:
  "update_products P f d = Inl e \<Longrightarrow> SQLERRM e \<noteq> []"
proof -
  assume "update_products P f d = Inl e"
  then have "update_where P f (\<lambda>others old new. products_constraints others new) [] (products d) = Inl e"
    by (auto simp: update_products_def split: sum.splits)
  then obtain others new where "products_constraints others new = Some e"
    by (auto dest: update_where_error)
  then show ?thesis
    by (auto simp: products_constraints_def SQLERRM_empty split: if_splits)
qed

lemma process_order_items_error:
  "process_order_items items d = Inl e \<Longrightarrow> SQLERRM e \<noteq> []"
proof (induction items arbitrary: d)
  case Nil
  then show ?case by simp
next
  case (Cons i rest)
  then show ?case
    by (auto simp: Let_def dest: update_products_error split: option.splits if_splits sum.splits)
qed

lemma insert_orders_error: "insert_orders r d = Inl e \<Longrightarrow> SQLERRM e \<noteq> []"
  by (auto simp: insert_orders_def orders_constraints_def orders_fk_def SQLERRM_empty
           split: option.splits if_splits)

lemma insert_order_items_error: "insert_order_items rs d = Inl e \<Longrightarrow> SQLERRM e \<noteq> []"
  by (induction rs arbitrary: d)
     (auto simp: order_items_constraints_def SQLERRM_empty split: option.splits if_splits)

lemma insert_activity_logs_error: "insert_activity_logs r d = Inl e \<Longrightarrow> SQLERRM e \<noteq> []"
  by (auto simp: insert_activity_logs_def SQLERRM_empty split: if_splits)

lemma place_order_block_error:
  assumes "place_order_block a env d = Inl e"
  shows "SQLERRM e \<noteq> []"
proof (cases "store_open_flag d = Some False")
  case True
  with assms show ?thesis by (auto simp: place_order_block_def)
next
  case False
  with assms show ?thesis
    by (auto simp: place_order_block_def split: sum.splits
             dest: process_order_items_error insert_orders_error insert_order_items_error
                   insert_activity_logs_error)
qed

lemma place_order_block_success:
  "place_order_block a env d = Inr (j, d') \<Longrightarrow> j = order_placed_json env"
  by (auto simp: place_order_block_def order_placed_json_def jsonb_build_object_def
           split: if_splits sum.splits)

subsection \<open>The outcomes of place_order_complete\<close>

lemma place_order_complete_failure:
  assumes "place_order_complete a env d = (Inr j, d')"
    and "json_get j ''success'' = Some (JBool False)"
  shows "\<exists>msg. msg \<noteq> [] \<and> j = failure_json msg \<and>
               d' = d\<lparr>activity_logs := activity_logs d @ [order_error_log a msg]\<rparr>"
proof (cases "place_order_block a env d")
  case (Inr x)
  obtain j0 d0 where x: "x = (j0, d0)" by (cases x)
  with Inr have "j0 = order_placed_json env" by (auto dest: place_order_block_success)
  moreover from Inr x assms(1) have "j = j0" by (simp add: place_order_complete_def)
  ultimately have "json_get j ''success'' = Some (JBool True)"
    by (simp add: order_placed_json_def)
  with assms(2) show ?thesis by simp
next
  case (Inl e)
  then have "SQLERRM e \<noteq> []" by (rule place_order_block_error)
  with Inl assms(1) show ?thesis
    by (auto simp: place_order_complete_def Let_def insert_activity_logs_result
                   failure_json_def jsonb_build_object_def
             split: sum.splits)
qed

lemma place_order_complete_rejected:
  assumes "place_order_block a env d = Inl e"
  shows "place_order_complete a env d =
           (if references_profile d (p_user_id a)
            then (Inr (failure_json (SQLERRM e)),
                  d\<lparr>activity_logs := activity_logs d @ [order_error_log a (SQLERRM e)]\<rparr>)
            else (Inl (ForeignKeyViolation ''activity_logs'' ''activity_logs_user_id_fkey''), d))"
  using assms
  by (simp add: place_order_complete_def Let_def insert_activity_logs_def order_error_log_def
        failure_json_def jsonb_build_object_def)

subsection \<open>The outcomes of verify_payment_slip\<close>

lemma verify_not_found:
  "\<not> unverified_order d oid \<Longrightarrow>
   verify_payment_slip oid tr amount url at d =
     (Inr (failure_json ''ORDER_NOT_FOUND_OR_ALREADY_VERIFIED''), d)"
  by (simp add: verify_payment_slip_def unverified_order_def failure_json_def
        jsonb_build_object_def)

lemma verify_duplicate:
  "unverified_order d oid \<Longrightarrow> reference_used d t \<Longrightarrow>
   verify_payment_slip oid (Some t) amount url at d =
     (Inr (failure_json ''DUPLICATE_TRANSACTION_REFERENCE''), d)"
  by (simp add: verify_payment_slip_def unverified_order_def reference_used_def
        failure_json_def jsonb_build_object_def)

lemma verify_invalid:
  assumes "unverified_order d oid" and "tr = None \<or> tr = Some [] \<and> \<not> reference_used d []"
  shows "verify_payment_slip oid tr amount url at d =
           (Inr (failure_json ''Invalid transaction reference''),
            d\<lparr>activity_logs := activity_logs d @
                 [payment_log ''PAYMENT_FAILED'' oid None
                    (Some ''Invalid transaction reference'')]\<rparr>)"
proof -
  have "insert_activity_logs
          (payment_log ''PAYMENT_FAILED'' oid None (Some ''Invalid transaction reference'')) d =
        Inr (d\<lparr>activity_logs := activity_logs d @
                 [payment_log ''PAYMENT_FAILED'' oid None
                    (Some ''Invalid transaction reference'')]\<rparr>)"
    by (simp add: insert_activity_logs_def payment_log_def references_profile_def)
  with assms show ?thesis
    by (auto simp: verify_payment_slip_def unverified_order_def reference_used_def
          failure_json_def jsonb_build_object_def json_get_text_def Let_def)
qed

lemma verify_valid:
  assumes "unverified_order d oid" and "t \<noteq> []" and "\<not> reference_used d t"
  shows "verify_payment_slip oid (Some t) amount url at d =
           (case update_orders (\<lambda>r. o_id r = oid) (mark_paid t url at) d of
              Inl e \<Rightarrow> (Inl e, d)
            | Inr d1 \<Rightarrow>
                (Inr (payment_verified_json oid),
                 d1\<lparr>activity_logs := activity_logs d1 @ [payment_verified_log oid t amount]\<rparr>))"
proof -
  have m: "(\<lambda>r. r\<lparr>status := Some ''paid'', trans_ref := Some t, thunder_verified := Some True,
                   verified_at := Some at, payment_slip_url := url\<rparr>) = mark_paid t url at"
    by (simp add: mark_paid_def fun_eq_iff)
  have l: "\<And>d1. insert_activity_logs (payment_verified_log oid t amount) d1 =
             Inr (d1\<lparr>activity_logs := activity_logs d1 @ [payment_verified_log oid t amount]\<rparr>)"
    by (simp add: insert_activity_logs_def payment_verified_log_def payment_log_def
          references_profile_def)
  from assms show ?thesis
    by (simp add: verify_payment_slip_def unverified_order_def reference_used_def
          jsonb_build_object_def json_get_text_def Let_def m
          l [unfolded payment_verified_log_def] payment_verified_json_def
          payment_verified_log_def
        split: sum.splits)
qed

lemma verify_payment_slip_failure:
  assumes "verify_payment_slip oid tr amount url at d = (Inr j, d')"
    and "json_get j ''success'' = Some (JBool False)"
  shows "\<exists>msg. msg \<noteq> [] \<and> j = failure_json msg \<and>
           (if unverified_order d oid \<and> (tr = None \<or> tr = Some [] \<and> \<not> reference_used d [])
            then d' = d\<lparr>activity_logs := activity_logs d @
                          [payment_log ''PAYMENT_FAILED'' oid None (Some msg)]\<rparr>
            else d' = d)"
proof (cases "unverified_order d oid")
  case False
  with assms(1) show ?thesis by (auto simp: verify_not_found)
next
  case u: True
  show ?thesis
  proof (cases tr)
    case None
    with u assms(1) show ?thesis
      using verify_invalid [OF u, of None amount url at]
      by (auto simp: verify_payment_slip_def unverified_order_def failure_json_def
            jsonb_build_object_def json_get_text_def Let_def insert_activity_logs_def
            payment_log_def references_profile_def)
  next
    case (Some t)
    show ?thesis
    proof (cases "reference_used d t")
      case True
      with u Some assms(1) show ?thesis by (auto simp: verify_duplicate)
    next
      case nu: False
      show ?thesis
      proof (cases "t = []")
        case True
        with u nu Some assms(1) show ?thesis by (auto simp: verify_invalid)
      next
        case False
        from verify_valid [OF u False nu, of amount url at] Some assms(1)
        have "j = payment_verified_json oid" by (auto split: sum.splits)
        with assms(2) show ?thesis by (simp add: payment_verified_json_def)
      qed
    qed
  qed
qed

subsection \<open>Updates that keep the keys of an order\<close>

lemma others_split:
  assumes "orders_ok rows" and "r \<in> set rows"
  obtains xs ys where "rows = xs @ r # ys"
    and "filter (\<lambda>x. o_id x \<noteq> o_id r) rows = xs @ ys"
proof -
  from assms(1) have "distinct (map o_id rows)" by (simp add: orders_ok_def)
  from this assms(2) obtain xs ys where s: "rows = xs @ r # ys"
    and xs: "\<forall>x\<in>set xs. o_id x \<noteq> o_id r" and ys: "\<forall>y\<in>set ys. o_id y \<noteq> o_id r"
    by (rule split_by_key)
  from xs ys have "filter (\<lambda>x. o_id x \<noteq> o_id r) rows = xs @ ys"
    by (simp add: s filter_id_conv)
  with s show thesis by (rule that)
qed

lemma others_order_number:
  assumes "orders_ok rows" and "r \<in> set rows"
  shows "order_number r \<notin> order_number ` set (filter (\<lambda>x. o_id x \<noteq> o_id r) rows)"
proof -
  from assms obtain xs ys where s: "rows = xs @ r # ys"
    and f: "filter (\<lambda>x. o_id x \<noteq> o_id r) rows = xs @ ys"
    by (rule others_split)
  from assms(1) have "distinct (map order_number rows)" by (simp add: orders_ok_def)
  then show ?thesis unfolding f by (auto simp: s)
qed

lemma others_trans_ref:
  assumes "orders_ok rows" and "r \<in> set rows" and "trans_ref r = Some t"
  shows "Some t \<notin> trans_ref ` set (filter (\<lambda>x. o_id x \<noteq> o_id r) rows)"
proof -
  from assms(1,2) obtain xs ys where s: "rows = xs @ r # ys"
    and f: "filter (\<lambda>x. o_id x \<noteq> o_id r) rows = xs @ ys"
    by (rule others_split)
  from assms(1) have "distinct (trans_refs rows)" by (simp add: orders_ok_def)
  with assms(3) have "t \<notin> set (trans_refs xs)" and "t \<notin> set (trans_refs ys)"
    by (auto simp: s)
  then show ?thesis unfolding f by (auto simp: set_trans_refs)
qed

lemma update_orders_keep_keys:
  assumes ok: "orders_ok (orders d)" and r: "r \<in> set (orders d)" "o_id r = oid"
    and keys: "o_id (f r) = oid" "order_number (f r) = order_number r"
      "user_id (f r) = user_id r" "total_price (f r) = total_price r"
    and st: "status_allowed (status (f r))"
    and tr: "trans_ref (f r) = trans_ref r \<or> trans_ref (f r) \<notin> trans_ref ` set (orders d)"
  shows "update_orders (\<lambda>x. o_id x = oid) f d =
           Inr (d\<lparr>orders := map (\<lambda>x. if o_id x = oid then f x else x) (orders d)\<rparr>)"
proof -
  let ?others = "filter (\<lambda>x. o_id x \<noteq> oid) (orders d)"
  from ok r(1) have "0 \<le> total_price r" by (auto simp: orders_ok_def list_all_iff)
  moreover have "order_number r \<notin> order_number ` set ?others"
    using others_order_number [OF ok r(1)] r(2) by simp
  moreover have "trans_ref (f r) = None \<or> trans_ref (f r) \<notin> trans_ref ` set ?others"
  proof (cases "trans_ref (f r)")
    case None
    then show ?thesis by simp
  next
    case (Some t)
    from tr show ?thesis
    proof
      assume "trans_ref (f r) = trans_ref r"
      with Some others_trans_ref [OF ok r(1), of t] r(2) show ?thesis by simp
    next
      assume "trans_ref (f r) \<notin> trans_ref ` set (orders d)"
      then show ?thesis by auto
    qed
  qed
  ultimately have "orders_constraints ?others (f r) = None"
    using keys st unfolding orders_constraints_None by auto
  then have "orders_update_check d ?others r (f r) = None"
    using keys(3) by (simp add: orders_update_check_def)
  with update_orders_by_id [OF ok r, of f] show ?thesis by simp
qed

lemma set_status_keeps:
  assumes "orders_ok (orders d)" and "r \<in> set (orders d)" and "o_id r = oid"
    and "v \<in> set order_statuses"
  shows "update_orders (\<lambda>x. o_id x = oid) (\<lambda>x. x\<lparr>status := Some v\<rparr>) d =
           Inr (d\<lparr>orders := map (\<lambda>x. if o_id x = oid then x\<lparr>status := Some v\<rparr> else x)
                               (orders d)\<rparr>)"
  using assms by (intro update_orders_keep_keys) (simp_all add: status_allowed_def)

lemma set_status_refused:
  assumes ok: "orders_ok (orders d)" and r: "r \<in> set (orders d)" "o_id r = oid"
    and "v \<notin> set order_statuses"
  shows "update_orders (\<lambda>x. o_id x = oid) (\<lambda>x. x\<lparr>status := Some v\<rparr>) d =
           Inl (CheckViolation ''orders'' ''orders_status_check'')"
  using update_orders_by_id [OF ok r, of "\<lambda>x. x\<lparr>status := Some v\<rparr>"] assms(4)
  by (simp add: orders_update_check_def orders_constraints_def status_allowed_def)

lemma status_text_allowed: "status_text s \<in> set order_statuses"
  by (cases s) (simp_all add: order_statuses_def)

subsection \<open>Every operation keeps the state consistent\<close>

lemma db_ok_update [simp]:
  "db_ok (d\<lparr>activity_logs := l\<rparr>) = db_ok d"
  "db_ok (d\<lparr>profiles := u\<rparr>) = db_ok d"
  "db_ok (d\<lparr>store_settings := s\<rparr>) = db_ok d"
  by (simp_all add: db_ok_def)

lemma update_products_db_ok:
  "update_products P f d = Inr d' \<Longrightarrow> db_ok d \<Longrightarrow> db_ok d'"
  using update_products_ok [of P f d d'] update_products_frame [of P f d d']
  by (simp add: db_ok_def)

lemma update_orders_db_ok:
  "update_orders P f d = Inr d' \<Longrightarrow> db_ok d \<Longrightarrow> db_ok d'"
  using update_orders_ok [of P f d d'] update_orders_result [of P f d d']
  by (auto simp: db_ok_def)

lemma insert_products_db_ok:
  "insert_products r d = Inr d' \<Longrightarrow> db_ok d \<Longrightarrow> db_ok d'"
  using insert_products_ok [of r d d']
  by (auto simp: db_ok_def insert_products_def split: option.splits)

lemma insert_orders_db_ok:
  "insert_orders r d = Inr d' \<Longrightarrow> db_ok d \<Longrightarrow> db_ok d'"
  using insert_orders_ok [of r d d']
  by (auto simp: db_ok_def insert_orders_result)

lemma insert_order_items_db_ok:
  "insert_order_items rs d = Inr d' \<Longrightarrow> db_ok d \<Longrightarrow> db_ok d'"
  by (auto simp: insert_order_items_result db_ok_def order_items_ok_def
        order_items_constraints_None list_all_iff)

lemma process_order_items_db_ok:
  "process_order_items items d = Inr d' \<Longrightarrow> db_ok d \<Longrightarrow> db_ok d'"
  using process_order_items_ok [of items d d'] process_order_items_frame [of items d d']
  by (simp add: db_ok_def)

lemma place_order_block_db_ok:
  assumes "place_order_block a env d = Inr (j, d')" and "db_ok d"
  shows "db_ok d'"
proof -
  from assms(1) obtain d1 d2 d3 where
    "process_order_items (p_order_items a) d = Inr d1"
    and "insert_orders (new_order_row a env) d1 = Inr d2"
    and "insert_order_items (map (new_order_item_row (new_uuid env)) (p_order_items a)) d2 = Inr d3"
    and "insert_activity_logs (order_created_log a env) d3 = Inr d'"
    by (auto simp: place_order_block_def split: if_splits sum.splits)
  with assms(2) show ?thesis
    by (auto simp: insert_activity_logs_result
          dest!: process_order_items_db_ok insert_orders_db_ok insert_order_items_db_ok)
qed

lemma place_order_complete_db_ok:
  assumes "db_ok d"
  shows "db_ok (snd (place_order_complete a env d))"
proof (cases "place_order_block a env d")
  case (Inl e)
  with assms show ?thesis by (simp add: place_order_complete_rejected)
next
  case (Inr x)
  obtain j d' where "x = (j, d')" by (cases x)
  with Inr assms show ?thesis
    by (auto simp: place_order_complete_def dest: place_order_block_db_ok)
qed

lemma verify_payment_slip_db_ok:
  assumes "db_ok d"
  shows "db_ok (snd (verify_payment_slip oid tr amount url at d))"
proof (cases "unverified_order d oid")
  case False
  with assms show ?thesis by (simp add: verify_not_found)
next
  case u: True
  show ?thesis
  proof (cases tr)
    case None
    with u assms show ?thesis by (simp add: verify_invalid)
  next
    case (Some t)
    show ?thesis
    proof (cases "reference_used d t")
      case True
      with u Some assms show ?thesis by (simp add: verify_duplicate)
    next
      case nu: False
      show ?thesis
      proof (cases "t = []")
        case True
        with u nu Some assms show ?thesis by (simp add: verify_invalid)
      next
        case False
        with u nu Some assms show ?thesis
          by (auto simp: verify_valid split: sum.splits dest: update_orders_db_ok)
      qed
    qed
  qed
qed

lemma updateOrderStatus_db_ok: "db_ok d \<Longrightarrow> db_ok (snd (updateOrderStatus oid s d))"
  by (auto simp: updateOrderStatus_def split: sum.splits dest: update_orders_db_ok)

lemma restore_stock_db_ok: "db_ok d \<Longrightarrow> db_ok (restore_stock items d)"
proof (induction items arbitrary: d)
  case Nil
  then show ?case by simp
next
  case (Cons i rest)
  then show ?case
    by (auto simp: increment_product_stock_def split: sum.splits dest: update_products_db_ok)
qed

lemma cancelOrder_db_ok: "db_ok d \<Longrightarrow> db_ok (snd (cancelOrder oid d))"
  by (auto simp: cancelOrder_def Let_def split: list.splits sum.splits
           dest: update_orders_db_ok restore_stock_db_ok)

lemma exec_db_ok: "db_ok d \<Longrightarrow> db_ok (exec d op)"
proof (cases op)
  case (PlaceOrderComplete a env)
  assume "db_ok d"
  with PlaceOrderComplete show ?thesis by (simp add: place_order_complete_db_ok)
next
  case (VerifyPaymentSlip oid tr amt url t)
  assume "db_ok d"
  with VerifyPaymentSlip show ?thesis by (simp add: verify_payment_slip_db_ok)
next
  case (UpdateOrderStatus oid s)
  assume "db_ok d"
  with UpdateOrderStatus show ?thesis by (simp add: updateOrderStatus_db_ok)
next
  case (CancelOrder oid)
  assume "db_ok d"
  with CancelOrder show ?thesis by (simp add: cancelOrder_db_ok)
next
  case (InsertProfile u)
  assume "db_ok d"
  with InsertProfile show ?thesis by simp
next
  case (SetStoreOpen b)
  assume "db_ok d"
  with SetStoreOpen show ?thesis by simp
next
  case (InsertProduct r)
  assume "db_ok d"
  with InsertProduct show ?thesis
    by (auto simp: keep_def split: sum.splits dest: insert_products_db_ok)
next
  case (UpdateProduct pid f)
  assume "db_ok d"
  with UpdateProduct show ?thesis
    by (auto simp: keep_def split: sum.splits dest: update_products_db_ok)
next
  case (InsertOrder r)
  assume "db_ok d"
  with InsertOrder show ?thesis
    by (auto simp: keep_def split: sum.splits dest: insert_orders_db_ok)
next
  case (UpdateOrder oid f)
  assume "db_ok d"
  with UpdateOrder show ?thesis
    by (auto simp: keep_def split: sum.splits dest: update_orders_db_ok)
qed

lemma foldl_exec_db_ok: "db_ok d \<Longrightarrow> db_ok (foldl exec d ops)"
  by (induction ops arbitrary: d) (simp_all add: exec_db_ok)

lemma init_db_ok: "db_ok init_db"
  by (simp add: db_ok_def init_db_def products_ok_def orders_ok_def order_items_ok_def)

lemma run_db_ok: "db_ok (run ops)"
  unfolding run_def by (rule foldl_exec_db_ok) (rule init_db_ok)

subsection \<open>The loop of cancelOrder\<close>

lemma restored_quantity_Nil [simp]: "restored_quantity [] pid = 0"
  by (simp add: restored_quantity_def)

lemma restored_quantity_Cons [simp]:
  "restored_quantity (i # items) pid =
     (if oi_product_id i = Some pid then oi_quantity i else 0) + restored_quantity items pid"
  by (simp add: restored_quantity_def)

lemma restored_quantity_nonneg:
  "\<forall>i\<in>set items. 0 < oi_quantity i \<Longrightarrow> 0 \<le> restored_quantity items pid"
  by (induction items) auto

lemma increment_stock_Nil [simp]: "increment_stock [] rows = rows"
  by (simp add: increment_stock_def map_idI)

lemma increment_one:
  assumes ok: "products_ok (products d)" and q: "0 < increment"
  shows "increment_product_stock u increment d =
           Inr (d\<lparr>products := map (\<lambda>x. if Some (pr_id x) = u
                                        then x\<lparr>stock := stock x + increment\<rparr> else x)
                                 (products d)\<rparr>)"
proof (cases "\<exists>p\<in>set (products d). Some (pr_id p) = u")
  case False
  then have "map (\<lambda>x. if Some (pr_id x) = u then x\<lparr>stock := stock x + increment\<rparr> else x)
               (products d) = products d"
    by (intro map_idI) auto
  with False show ?thesis
    by (simp add: increment_product_stock_def update_products_no_row)
next
  case True
  then obtain p where p: "p \<in> set (products d)" "u = Some (pr_id p)" by auto
  from ok p(1) have "0 \<le> price p" "0 \<le> stock p"
    by (auto simp: products_ok_def list_all_iff)
  with q have
    "products_constraints (filter (\<lambda>x. pr_id x \<noteq> pr_id p) (products d))
       (p\<lparr>stock := stock p + increment\<rparr>) = None"
    by (auto simp: products_constraints_None)
  with update_products_by_id [OF ok p(1) refl, of "\<lambda>x. x\<lparr>stock := stock x + increment\<rparr>"] p(2)
  show ?thesis by (simp add: increment_product_stock_def)
qed

lemma restore_stock_result:
  assumes "products_ok (products d)" and "\<forall>i\<in>set items. 0 < oi_quantity i"
  shows "restore_stock items d = d\<lparr>products := increment_stock items (products d)\<rparr>"
  using assms
proof (induction items arbitrary: d)
  case Nil
  then show ?case by simp
next
  case (Cons i rest)
  let ?inc = "\<lambda>x. if Some (pr_id x) = oi_product_id i
                    then x\<lparr>stock := stock x + oi_quantity i\<rparr> else x"
  let ?d1 = "d\<lparr>products := map ?inc (products d)\<rparr>"
  from Cons.prems have q: "0 < oi_quantity i" and rest: "\<forall>i\<in>set rest. 0 < oi_quantity i"
    by simp_all
  have u: "increment_product_stock (oi_product_id i) (oi_quantity i) d = Inr ?d1"
    using Cons.prems(1) q by (rule increment_one)
  then have "update_products (\<lambda>x. Some (pr_id x) = oi_product_id i)
               (\<lambda>x. x\<lparr>stock := stock x + oi_quantity i\<rparr>) d = Inr ?d1"
    by (simp add: increment_product_stock_def)
  from update_products_ok [OF this Cons.prems(1)] have ok1: "products_ok (products ?d1)" .
  have "restore_stock (i # rest) d = restore_stock rest ?d1" using u by simp
  also have "\<dots> = ?d1\<lparr>products := increment_stock rest (products ?d1)\<rparr>"
    using ok1 rest by (rule Cons.IH)
  also have "\<dots> = d\<lparr>products := increment_stock (i # rest) (products d)\<rparr>"
    by (auto simp: increment_stock_def)
  finally show ?case .
qed

lemma single_row:
  assumes "distinct (map k rows)" and "r \<in> set rows"
  shows "filter (\<lambda>x. k x = k r) rows = [r]"
proof -
  from assms obtain xs ys where "rows = xs @ r # ys"
    and "\<forall>x\<in>set xs. k x \<noteq> k r" and "\<forall>y\<in>set ys. k y \<noteq> k r"
    by (rule split_by_key)
  then show ?thesis by (simp add: filter_empty_conv)
qed


lemma cancelOrder_pending:
  assumes ok: "db_ok d" and r: "r \<in> set (orders d)" "o_id r = oid"
    and p: "status r = Some ''pending''"
  shows "cancelOrder oid d =
           (Inr (),
            d\<lparr>products := increment_stock (items_of_order d oid) (products d),
              orders := map (\<lambda>x. if o_id x = oid then x\<lparr>status := Some ''cancelled''\<rparr> else x)
                          (orders d)\<rparr>)"
proof -
  let ?items = "filter (\<lambda>i. oi_order_id i = Some oid) (order_items d)"
  let ?d1 = "d\<lparr>products := increment_stock ?items (products d)\<rparr>"
  from ok have oo: "orders_ok (orders d)" and po: "products_ok (products d)"
    and io: "order_items_ok (order_items d)" by (simp_all add: db_ok_def)
  from oo have "distinct (map o_id (orders d))" by (simp add: orders_ok_def)
  from single_row [OF this r(1)] r(2)
  have f: "filter (\<lambda>x. o_id x = oid) (orders d) = [r]" by simp
  from io have "\<forall>i\<in>set ?items. 0 < oi_quantity i"
    by (auto simp: order_items_ok_def list_all_iff)
  with po have rs: "restore_stock ?items d = ?d1" by (rule restore_stock_result)
  have "update_orders (\<lambda>x. o_id x = oid) (\<lambda>x. x\<lparr>status := Some ''cancelled''\<rparr>) ?d1 =
          Inr (?d1\<lparr>orders := map (\<lambda>x. if o_id x = oid then x\<lparr>status := Some ''cancelled''\<rparr> else x)
                                (orders ?d1)\<rparr>)"
    using oo r by (intro set_status_keeps) (simp_all add: order_statuses_def)
  with f p rs show ?thesis
    by (simp add: cancelOrder_def Let_def items_of_order_def)
qed

lemma cancelOrder_missing:
  assumes "\<forall>r\<in>set (orders d). o_id r \<noteq> oid"
  shows "cancelOrder oid d = (Inl SingleRowExpected, d)"
proof -
  from assms have "filter (\<lambda>x. o_id x = oid) (orders d) = []"
    by (simp add: filter_empty_conv)
  then show ?thesis by (simp add: cancelOrder_def)
qed

section \<open>Evaluation on the sample data\<close>

lemmas sample_defs =
  shop_db_def closed_shop_db_def sample_args_def sample_env_def

lemma shop_db_ok: "db_ok shop_db"
  by (simp add: db_ok_def products_ok_def orders_ok_def order_items_ok_def shop_db_def)


lemma sample_order_number: "make_order_number sample_env = ''261102-04213''"
  by (simp add: make_order_number_def sample_env_def lpad_def show_nat.simps digit_char_def)

lemma sample_new_uuid: "new_uuid sample_env = ''o1''"
  by (simp add: sample_env_def)

lemma sample_accepted: "order_accepted sample_args sample_env shop_db"
  by (simp add: order_accepted_def sample_defs product_available_def ordered_quantity_def
        store_open_flag_def references_profile_def)

lemma sample_closed: "\<not> order_accepted sample_args sample_env closed_shop_db"
  by (simp add: order_accepted_def sample_defs store_open_flag_def)

lemma placed_db_eq: "placed_db = order_placed_db sample_args sample_env shop_db"
  unfolding placed_db_def
  using place_order_block_accepted [OF shop_db_ok sample_accepted]
  by (simp add: place_order_complete_def)

lemma placed_db_value:
  "placed_db =
     \<lparr>store_settings = [\<lparr>is_store_open = Some True, flat_shipping_fee = Some 0\<rparr>],
      profiles = [''u1''],
      products = [\<lparr>pr_id = ''p1'', price = 10000, stock = 3, is_available = Some True\<rparr>],
      orders = [\<lparr>o_id = ''o1'', user_id = Some ''u1'', order_number = ''261102-04213'',
                 total_price = 20000, shipping_fee = 5000,
                 shipping_address = ''12 Market Road'', shipping_coordinates = None,
                 shipping_method = Some ''delivery'', status = Some ''pending'',
                 payment_slip_url = None, trans_ref = None,
                 thunder_verified = Some False, verified_at = None\<rparr>],
      order_items = [\<lparr>oi_order_id = Some ''o1'', oi_product_id = Some ''p1'',
                      oi_quantity = 2, oi_unit_price = 10000\<rparr>],
      activity_logs = [\<lparr>log_user_id = Some ''u1'', action_type = ''ORDER_CREATED'',
                        table_name = Some ''orders'', record_id = Some ''o1'',
                        new_data = Some (JObj [(''order_number'', JStr ''261102-04213''),
                                               (''total_price'', JNum 20000),
                                               (''items_count'', JNum 1)]),
                        error_message = None\<rparr>]\<rparr>"
  unfolding placed_db_eq
  by (simp add: order_placed_db_def decrement_stock_def ordered_quantity_def new_order_row_def
        new_order_item_row_def order_created_log_def jsonb_build_object_def
        sample_order_number sample_new_uuid shop_db_def sample_args_def)

lemma placed_db_ok: "db_ok placed_db"
  unfolding placed_db_def by (rule place_order_complete_db_ok) (rule shop_db_ok)

section \<open>The claims\<close>

text \<open>
  Claim C1, as amended. When \<open>place_order_complete\<close> or \<open>verify_payment_slip\<close> returns an
  object with \<open>success = false\<close>, the tables \<open>products\<close>, \<open>orders\<close> and \<open>order_items\<close> are as
  before the call and the object carries a non-empty error text. \<open>place_order_complete\<close>
  appends one \<open>activity_logs\<close> row with that text. \<open>verify_payment_slip\<close> appends such a row
  only when the verification itself fails (the order is there and unverified, and the
  reference is missing or empty); its two guard returns (order not found or already
  verified, duplicate reference) append nothing.
\<close>

theorem failed_call_leaves_tables:
  "(place_order_complete a env d = (Inr j, d') \<and> json_get j ''success'' = Some (JBool False) \<longrightarrow>
      (\<exists>msg. msg \<noteq> [] \<and> json_get j ''error'' = Some (JStr msg) \<and>
             products d' = products d \<and> orders d' = orders d \<and>
             order_items d' = order_items d \<and>
             activity_logs d' = activity_logs d @ [order_error_log a msg] \<and>
             error_message (order_error_log a msg) = Some msg)) \<and>
   (verify_payment_slip oid tr amount url at e = (Inr k, e') \<and>
    json_get k ''success'' = Some (JBool False) \<longrightarrow>
      (\<exists>msg. msg \<noteq> [] \<and> json_get k ''error'' = Some (JStr msg) \<and>
             products e' = products e \<and> orders e' = orders e \<and>
             order_items e' = order_items e \<and>
             activity_logs e' =
               (if unverified_order e oid \<and> (tr = None \<or> tr = Some [] \<and> \<not> reference_used e [])
                then activity_logs e @ [payment_log ''PAYMENT_FAILED'' oid None (Some msg)]
                else activity_logs e)))"
proof (intro conjI impI)
  assume "place_order_complete a env d = (Inr j, d') \<and> json_get j ''success'' = Some (JBool False)"
  then obtain msg where "msg \<noteq> []" "j = failure_json msg"
    "d' = d\<lparr>activity_logs := activity_logs d @ [order_error_log a msg]\<rparr>"
    by (auto dest: place_order_complete_failure)
  then show "\<exists>msg. msg \<noteq> [] \<and> json_get j ''error'' = Some (JStr msg) \<and>
             products d' = products d \<and> orders d' = orders d \<and>
             order_items d' = order_items d \<and>
             activity_logs d' = activity_logs d @ [order_error_log a msg] \<and>
             error_message (order_error_log a msg) = Some msg"
    by (intro exI [of _ msg]) (simp add: failure_json_def order_error_log_def)
next
  assume "verify_payment_slip oid tr amount url at e = (Inr k, e') \<and>
          json_get k ''success'' = Some (JBool False)"
  then obtain msg where m: "msg \<noteq> []" "k = failure_json msg"
    "if unverified_order e oid \<and> (tr = None \<or> tr = Some [] \<and> \<not> reference_used e [])
     then e' = e\<lparr>activity_logs := activity_logs e @
                    [payment_log ''PAYMENT_FAILED'' oid None (Some msg)]\<rparr>
     else e' = e"
    by (auto dest: verify_payment_slip_failure)
  show "\<exists>msg. msg \<noteq> [] \<and> json_get k ''error'' = Some (JStr msg) \<and>
             products e' = products e \<and> orders e' = orders e \<and>
             order_items e' = order_items e \<and>
             activity_logs e' =
               (if unverified_order e oid \<and> (tr = None \<or> tr = Some [] \<and> \<not> reference_used e [])
                then activity_logs e @ [payment_log ''PAYMENT_FAILED'' oid None (Some msg)]
                else activity_logs e)"
    using m by (intro exI [of _ msg]) (auto simp: failure_json_def split: if_splits)
qed

theorem failed_call_leaves_tables_witness:
  "place_order_complete sample_args sample_env closed_shop_db =
     (Inr (failure_json ''STORE_CLOSED: Store is currently closed''),
      closed_shop_db\<lparr>activity_logs :=
        [order_error_log sample_args ''STORE_CLOSED: Store is currently closed'']\<rparr>) \<and>
   json_get (failure_json ''STORE_CLOSED: Store is currently closed'') ''success'' =
     Some (JBool False) \<and>
   (\<exists>msg. msg \<noteq> [] \<and>
      json_get (failure_json ''STORE_CLOSED: Store is currently closed'') ''error'' =
        Some (JStr msg) \<and>
      error_message (order_error_log sample_args msg) = Some msg) \<and>
   verify_payment_slip ''o1'' None 25000 None 2000 placed_db =
     (Inr (failure_json ''Invalid transaction reference''),
      placed_db\<lparr>activity_logs := activity_logs placed_db @
        [payment_log ''PAYMENT_FAILED'' ''o1'' None (Some ''Invalid transaction reference'')]\<rparr>) \<and>
   unverified_order placed_db ''o1''"
proof -
  let ?m = "''STORE_CLOSED: Store is currently closed''"
  let ?d' = "closed_shop_db\<lparr>activity_logs := [order_error_log sample_args ?m]\<rparr>"
  let ?n = "''Invalid transaction reference''"
  let ?e' = "placed_db\<lparr>activity_logs := activity_logs placed_db @
               [payment_log ''PAYMENT_FAILED'' ''o1'' None (Some ?n)]\<rparr>"
  have b: "place_order_block sample_args sample_env closed_shop_db = Inl (RaisedException ?m)"
    by (simp add: place_order_block_def store_open_flag_def closed_shop_db_def)
  have h1: "place_order_complete sample_args sample_env closed_shop_db = (Inr (failure_json ?m), ?d')"
    by (subst place_order_complete_rejected [OF b])
       (simp add: references_profile_def sample_defs)
  have s: "json_get (failure_json ?m) ''success'' = Some (JBool False)"
    "json_get (failure_json ?n) ''success'' = Some (JBool False)"
    by (simp_all add: failure_json_def)
  have u: "unverified_order placed_db ''o1''"
    by (simp add: unverified_order_def placed_db_value)
  then have h2: "verify_payment_slip ''o1'' None 25000 None 2000 placed_db = (Inr (failure_json ?n), ?e')"
    by (simp add: verify_invalid)
  from failed_call_leaves_tables
    [where a = sample_args and env = sample_env and d = closed_shop_db
       and j = "failure_json ?m" and d' = ?d'
       and oid = "''o1''" and tr = None and amount = 25000 and url = None and at = 2000
       and e = placed_db and k = "failure_json ?n" and e' = ?e']
    h1 h2 s u
  show ?thesis by (auto simp: failure_json_def)
qed

theorem verify_guard_logs_nothing:
  "verify_payment_slip ''o9'' (Some ''TX-0001'') 25000 None 2000 shop_db =
     (Inr (failure_json ''ORDER_NOT_FOUND_OR_ALREADY_VERIFIED''), shop_db) \<and>
   json_get (failure_json ''ORDER_NOT_FOUND_OR_ALREADY_VERIFIED'') ''success'' = Some (JBool False) \<and>
   activity_logs shop_db = []"
  by (simp add: verify_not_found unverified_order_def shop_db_def failure_json_def)




lemma run_shop_history: "run shop_history = shop_db"
  by (simp add: run_def shop_history_def init_db_def shop_db_def keep_def insert_products_def
        products_constraints_def)

lemma run_sample_history: "run sample_history = placed_db"
  using run_shop_history
  by (simp add: run_def sample_history_def placed_db_def)

text \<open>
  Claim C3. In every state a history of operations reaches, the stock of every product
  is non-negative. In particular a call of \<open>place_order_complete\<close> from a consistent state
  leaves every stock non-negative; \<open>cancelOrder\<close> lowers no stock; and an insert or an
  update of a product that would make a stock negative fails.
\<close>

theorem stock_never_negative:
  "list_all (\<lambda>p. 0 \<le> stock p) (products (run ops)) \<and>
   (db_ok d \<longrightarrow> list_all (\<lambda>p. 0 \<le> stock p) (products (snd (place_order_complete a env d)))) \<and>
   (db_ok d \<longrightarrow>
      list_all2 (\<lambda>p p'. pr_id p' = pr_id p \<and> stock p \<le> stock p')
        (products d) (products (snd (cancelOrder oid d)))) \<and>
   (stock r < 0 \<longrightarrow> (\<exists>e. insert_products r d = Inl e)) \<and>
   (db_ok d \<longrightarrow> p \<in> set (products d) \<longrightarrow> stock (f p) < 0 \<longrightarrow>
      (\<exists>e. update_products (\<lambda>q. pr_id q = pr_id p) f d = Inl e))"
proof (intro conjI impI)
  show "list_all (\<lambda>p. 0 \<le> stock p) (products (run ops))"
    using run_db_ok [of ops] by (simp add: db_ok_def products_ok_def list_all_iff)
next
  assume "db_ok d"
  then have "db_ok (snd (place_order_complete a env d))" by (rule place_order_complete_db_ok)
  then show "list_all (\<lambda>p. 0 \<le> stock p) (products (snd (place_order_complete a env d)))"
    by (simp add: db_ok_def products_ok_def list_all_iff)
next
  assume ok: "db_ok d"
  let ?items = "items_of_order d oid"
  from ok have po: "products_ok (products d)" and io: "order_items_ok (order_items d)"
    by (simp_all add: db_ok_def)
  from io have pos: "\<forall>i\<in>set ?items. 0 < oi_quantity i"
    by (auto simp: order_items_ok_def list_all_iff items_of_order_def)
  have rs: "restore_stock ?items d = d\<lparr>products := increment_stock ?items (products d)\<rparr>"
    using po pos by (rule restore_stock_result)
  have "products (snd (cancelOrder oid d)) = products d \<or>
        products (snd (cancelOrder oid d)) = increment_stock ?items (products d)"
    using rs
    by (auto simp: cancelOrder_def Let_def items_of_order_def
             split: list.splits sum.splits dest!: update_orders_result)
  moreover have "list_all2 (\<lambda>p p'. pr_id p' = pr_id p \<and> stock p \<le> stock p')
                   (products d) (products d)"
    by (simp add: list_all2_same)
  moreover have "list_all2 (\<lambda>p p'. pr_id p' = pr_id p \<and> stock p \<le> stock p')
                   (products d) (increment_stock ?items (products d))"
    using restored_quantity_nonneg [OF pos]
    by (simp add: increment_stock_def list_all2_map2 list_all2_same)
  ultimately show "list_all2 (\<lambda>p p'. pr_id p' = pr_id p \<and> stock p \<le> stock p')
                     (products d) (products (snd (cancelOrder oid d)))"
    by auto
next
  assume "stock r < 0"
  then show "\<exists>e. insert_products r d = Inl e"
    by (simp add: insert_products_def products_constraints_def)
next
  assume "db_ok d" and p: "p \<in> set (products d)" and "stock (f p) < 0"
  then have "products_ok (products d)" by (simp add: db_ok_def)
  from update_products_by_id [OF this p refl, of f] \<open>stock (f p) < 0\<close>
  show "\<exists>e. update_products (\<lambda>q. pr_id q = pr_id p) f d = Inl e"
    by (simp add: products_constraints_def)
qed

theorem stock_never_negative_witness:
  "list_all (\<lambda>p. 0 \<le> stock p) (products (run sample_history)) \<and>
   map stock (products (run sample_history)) = [3] \<and>
   db_ok shop_db \<and>
   list_all (\<lambda>p. 0 \<le> stock p) (products (snd (place_order_complete sample_args sample_env shop_db))) \<and>
   db_ok placed_db \<and>
   map stock (products (snd (cancelOrder ''o1'' placed_db))) = [5] \<and>
   list_all2 (\<lambda>p p'. pr_id p' = pr_id p \<and> stock p \<le> stock p')
     (products placed_db) (products (snd (cancelOrder ''o1'' placed_db))) \<and>
   stock \<lparr>pr_id = ''p2'', price = 100, stock = - 1, is_available = Some True\<rparr> < 0 \<and>
   (\<exists>e. insert_products \<lparr>pr_id = ''p2'', price = 100, stock = - 1, is_available = Some True\<rparr>
          shop_db = Inl e) \<and>
   (\<exists>e. update_products (\<lambda>q. pr_id q = ''p1'') (\<lambda>q. q\<lparr>stock := stock q - 6\<rparr>) shop_db = Inl e)"
proof -
  let ?r = "\<lparr>pr_id = ''p2'', price = 100, stock = - 1, is_available = Some True\<rparr>"
  let ?p = "\<lparr>pr_id = ''p1'', price = 10000, stock = 5, is_available = Some True\<rparr>"
  have o: "\<lparr>o_id = ''o1'', user_id = Some ''u1'', order_number = ''261102-04213'',
             total_price = 20000, shipping_fee = 5000,
             shipping_address = ''12 Market Road'', shipping_coordinates = None,
             shipping_method = Some ''delivery'', status = Some ''pending'',
             payment_slip_url = None, trans_ref = None,
             thunder_verified = Some False, verified_at = None\<rparr> \<in> set (orders placed_db)"
    by (simp add: placed_db_value)
  have c: "map stock (products (snd (cancelOrder ''o1'' placed_db))) = [5]"
    by (subst cancelOrder_pending [OF placed_db_ok o])
       (simp_all add: placed_db_value increment_stock_def items_of_order_def restored_quantity_def)
  have s: "map stock (products placed_db) = [3]" by (simp add: placed_db_value)
  have m: "?p \<in> set (products shop_db)" "stock (?p\<lparr>stock := stock ?p - 6\<rparr>) < 0"
    by (simp_all add: shop_db_def)
  from stock_never_negative [of sample_history shop_db sample_args sample_env "''o1''" ?r ?p
         "\<lambda>q. q\<lparr>stock := stock q - 6\<rparr>"]
    stock_never_negative [of sample_history placed_db sample_args sample_env "''o1''" ?r ?p
         "\<lambda>q. q\<lparr>stock := stock q - 6\<rparr>"]
    shop_db_ok placed_db_ok c s m
  show ?thesis by (simp add: run_sample_history)
qed

subsection \<open>Transaction references\<close>

lemma at_most_one_carrier:
  "distinct (trans_refs rows) \<Longrightarrow> length (filter (\<lambda>r. trans_ref r = Some t) rows) \<le> 1"
proof (induction rows)
  case Nil
  then show ?case by simp
next
  case (Cons r rows)
  show ?case
  proof (cases "trans_ref r = Some t")
    case True
    with Cons.prems have "t \<notin> set (trans_refs rows)" by simp
    then have "filter (\<lambda>r. trans_ref r = Some t) rows = []"
      by (auto simp: set_trans_refs filter_empty_conv image_iff)
    with True show ?thesis by simp
  next
    case False
    with Cons show ?thesis by (auto split: option.splits)
  qed
qed

lemma reference_used_iff: "reference_used d t \<longleftrightarrow> Some t \<in> trans_ref ` set (orders d)"
  unfolding reference_used_def list_ex_iff image_iff by metis

text \<open>
  Claim C4, as amended. In every state a history of operations reaches, at most one
  order carries a given transaction reference. When some order already carries the
  reference, \<open>verify_payment_slip\<close> called with it returns \<open>success = false\<close> and changes
  nothing; the error is \<open>DUPLICATE_TRANSACTION_REFERENCE\<close> when the order of the call is
  there and unverified, and \<open>ORDER_NOT_FOUND_OR_ALREADY_VERIFIED\<close> otherwise, since that
  guard comes first. An insert of an order with a reference already carried fails, and
  so does an update that gives an order the reference another order carries.
\<close>

theorem one_order_per_trans_ref:
  "length (filter (\<lambda>r. trans_ref r = Some t) (orders (run ops))) \<le> 1 \<and>
   (reference_used d t \<longrightarrow>
      verify_payment_slip oid (Some t) amount url at d =
        (Inr (failure_json (if unverified_order d oid
                            then ''DUPLICATE_TRANSACTION_REFERENCE''
                            else ''ORDER_NOT_FOUND_OR_ALREADY_VERIFIED'')), d)) \<and>
   (reference_used d t \<longrightarrow> trans_ref r = Some t \<longrightarrow> (\<exists>e. insert_orders r d = Inl e)) \<and>
   (db_ok d \<longrightarrow> x \<in> set (orders d) \<longrightarrow> y \<in> set (orders d) \<longrightarrow> o_id y \<noteq> o_id x \<longrightarrow>
    trans_ref y = Some t \<longrightarrow> trans_ref (f x) = Some t \<longrightarrow>
      (\<exists>e. update_orders (\<lambda>z. o_id z = o_id x) f d = Inl e))"
proof (intro conjI impI)
  from run_db_ok [of ops] have "distinct (trans_refs (orders (run ops)))"
    by (simp add: db_ok_def orders_ok_def)
  then show "length (filter (\<lambda>r. trans_ref r = Some t) (orders (run ops))) \<le> 1"
    by (rule at_most_one_carrier)
next
  assume "reference_used d t"
  then show "verify_payment_slip oid (Some t) amount url at d =
               (Inr (failure_json (if unverified_order d oid
                                   then ''DUPLICATE_TRANSACTION_REFERENCE''
                                   else ''ORDER_NOT_FOUND_OR_ALREADY_VERIFIED'')), d)"
    by (simp add: verify_duplicate verify_not_found)
next
  assume "reference_used d t" and "trans_ref r = Some t"
  then have "orders_constraints (orders d) r \<noteq> None"
    by (auto simp: orders_constraints_None reference_used_iff)
  then show "\<exists>e. insert_orders r d = Inl e"
    by (auto simp: insert_orders_def)
next
  assume ok: "db_ok d" and x: "x \<in> set (orders d)" and y: "y \<in> set (orders d)"
    and ne: "o_id y \<noteq> o_id x" and ty: "trans_ref y = Some t" and tf: "trans_ref (f x) = Some t"
  from ok have oo: "orders_ok (orders d)" by (simp add: db_ok_def)
  from y ne ty have "Some t \<in> trans_ref ` set (filter (\<lambda>z. o_id z \<noteq> o_id x) (orders d))"
    by (auto simp: image_iff intro!: bexI [of _ y])
  with tf have "orders_constraints (filter (\<lambda>z. o_id z \<noteq> o_id x) (orders d)) (f x) \<noteq> None"
    unfolding orders_constraints_None by simp
  then have "orders_update_check d (filter (\<lambda>z. o_id z \<noteq> o_id x) (orders d)) x (f x) \<noteq> None"
    by (auto simp: orders_update_check_def)
  with update_orders_by_id [OF oo x refl, of f]
  show "\<exists>e. update_orders (\<lambda>z. o_id z = o_id x) f d = Inl e" by auto
qed

subsection \<open>A verified payment\<close>

lemma verify_marks_paid:
  assumes ok: "db_ok d" and r: "r \<in> set (orders d)" "trans_ref r = None"
    and t: "t \<noteq> []" "\<not> reference_used d t"
  shows "verify_payment_slip (o_id r) (Some t) amount url at d =
           (Inr (payment_verified_json (o_id r)),
            d\<lparr>orders := map (\<lambda>x. if o_id x = o_id r then mark_paid t url at x else x) (orders d),
              activity_logs := activity_logs d @ [payment_verified_log (o_id r) t amount]\<rparr>)"
proof -
  from ok have oo: "orders_ok (orders d)" by (simp add: db_ok_def)
  from r have u: "unverified_order d (o_id r)"
    by (auto simp: unverified_order_def list_ex_iff)
  from t(2) have "Some t \<notin> trans_ref ` set (orders d)" by (simp add: reference_used_iff)
  then have "update_orders (\<lambda>x. o_id x = o_id r) (mark_paid t url at) d =
          Inr (d\<lparr>orders := map (\<lambda>x. if o_id x = o_id r then mark_paid t url at x else x)
                              (orders d)\<rparr>)"
    using oo r(1)
    by (intro update_orders_keep_keys)
       (simp_all add: mark_paid_def status_allowed_def order_statuses_def)
  with verify_valid [OF u t, of amount url at] show ?thesis by simp
qed

lemma orders_placed_db: "orders placed_db = [new_order_row sample_args sample_env]"
  by (simp add: placed_db_eq order_placed_db_def shop_db_def)

lemma new_order_row_simps:
  "o_id (new_order_row a env) = new_uuid env"
  "trans_ref (new_order_row a env) = p_trans_ref a"
  "status (new_order_row a env) = Some ''pending''"
  "order_number (new_order_row a env) = make_order_number env"
  by (simp_all add: new_order_row_def)

lemma mark_paid_simps:
  "o_id (mark_paid t url at r) = o_id r"
  "trans_ref (mark_paid t url at r) = Some t"
  "status (mark_paid t url at r) = Some ''paid''"
  "order_number (mark_paid t url at r) = order_number r"
  "thunder_verified (mark_paid t url at r) = Some True"
  "verified_at (mark_paid t url at r) = Some at"
  "payment_slip_url (mark_paid t url at r) = url"
  by (simp_all add: mark_paid_def)

lemma placed_unused: "\<not> reference_used placed_db t"
  by (simp add: reference_used_def orders_placed_db new_order_row_simps sample_args_def)

lemma paid_db_eq:
  "paid_db =
     placed_db\<lparr>orders := [mark_paid ''TX-0001'' (Some ''slips/1.png'') 2000
                             (new_order_row sample_args sample_env)],
               activity_logs := activity_logs placed_db @
                                [payment_verified_log ''o1'' ''TX-0001'' 25000]\<rparr>"
proof -
  have "new_order_row sample_args sample_env \<in> set (orders placed_db)"
    by (simp add: orders_placed_db)
  from verify_marks_paid [OF placed_db_ok this _ _ placed_unused,
         of "''TX-0001''" 25000 "Some ''slips/1.png''" 2000]
  show ?thesis
    by (simp add: paid_db_def new_order_row_simps sample_new_uuid sample_args_def orders_placed_db)
qed

lemma paid_db_ok: "db_ok paid_db"
  unfolding paid_db_def by (rule verify_payment_slip_db_ok) (rule placed_db_ok)

lemma run_paid_history: "run paid_history = paid_db"
  using run_sample_history
  by (simp add: run_def paid_history_def paid_db_def)

lemma sample_order_number2: "make_order_number sample_env2 = ''261102-00077''"
  by code_simp

lemma second_accepted: "order_accepted sample_args sample_env2 paid_db"
  by (simp add: order_accepted_def paid_db_eq placed_db_value product_available_def
        ordered_quantity_def store_open_flag_def references_profile_def
        sample_order_number2 sample_order_number mark_paid_simps new_order_row_simps)
     (simp add: sample_args_def sample_env2_def sample_new_uuid)

lemma two_orders_db_eq: "two_orders_db = order_placed_db sample_args sample_env2 paid_db"
  unfolding two_orders_db_def
  using place_order_block_accepted [OF paid_db_ok second_accepted]
  by (simp add: place_order_complete_def)

lemma orders_two_orders_db:
  "orders two_orders_db =
     [mark_paid ''TX-0001'' (Some ''slips/1.png'') 2000 (new_order_row sample_args sample_env),
      new_order_row sample_args sample_env2]"
  by (simp add: two_orders_db_eq order_placed_db_def paid_db_eq)

lemma two_orders_db_ok: "db_ok two_orders_db"
  unfolding two_orders_db_def by (rule place_order_complete_db_ok) (rule paid_db_ok)

theorem one_order_per_trans_ref_witness:
  "length (filter (\<lambda>r. trans_ref r = Some ''TX-0001'') (orders (run paid_history))) \<le> 1 \<and>
   map trans_ref (orders (run paid_history)) = [Some ''TX-0001''] \<and>
   reference_used two_orders_db ''TX-0001'' \<and>
   unverified_order two_orders_db ''o2'' \<and>
   verify_payment_slip ''o2'' (Some ''TX-0001'') 25000 None 4000 two_orders_db =
     (Inr (failure_json ''DUPLICATE_TRANSACTION_REFERENCE''), two_orders_db) \<and>
   (\<exists>e. insert_orders (mark_paid ''TX-0001'' None 4000 (new_order_row sample_args sample_env2))
          two_orders_db = Inl e) \<and>
   db_ok two_orders_db \<and>
   (\<exists>e. update_orders (\<lambda>z. o_id z = ''o2'') (mark_paid ''TX-0001'' None 4000) two_orders_db = Inl e)"
proof -
  let ?y = "mark_paid ''TX-0001'' (Some ''slips/1.png'') 2000 (new_order_row sample_args sample_env)"
  let ?x = "new_order_row sample_args sample_env2"
  let ?r = "mark_paid ''TX-0001'' None 4000 ?x"
  have u: "reference_used two_orders_db ''TX-0001''"
    by (simp add: reference_used_def orders_two_orders_db mark_paid_simps)
  have v: "unverified_order two_orders_db ''o2''"
    by (simp add: unverified_order_def orders_two_orders_db new_order_row_simps mark_paid_simps
          sample_args_def sample_env2_def)
  have m: "?x \<in> set (orders two_orders_db)" "?y \<in> set (orders two_orders_db)"
    "o_id ?y \<noteq> o_id ?x" "trans_ref ?y = Some ''TX-0001''" "trans_ref ?r = Some ''TX-0001''"
    "o_id ?x = ''o2''"
    by (simp_all add: orders_two_orders_db mark_paid_simps new_order_row_simps
          sample_new_uuid sample_env2_def)
  have p: "map trans_ref (orders (run paid_history)) = [Some ''TX-0001'']"
    by (simp add: run_paid_history paid_db_eq mark_paid_simps)
  from one_order_per_trans_ref
         [of "''TX-0001''" paid_history two_orders_db "''o2''" 25000 None 4000 ?r ?x ?y
             "mark_paid ''TX-0001'' None 4000"]
    u v m p two_orders_db_ok
  show ?thesis by simp
qed

theorem verified_order_reports_not_found:
  "reference_used paid_db ''TX-0001'' \<and>
   verify_payment_slip ''o1'' (Some ''TX-0001'') 25000 None 3000 paid_db =
     (Inr (failure_json ''ORDER_NOT_FOUND_OR_ALREADY_VERIFIED''), paid_db) \<and>
   failure_json ''ORDER_NOT_FOUND_OR_ALREADY_VERIFIED'' \<noteq>
     failure_json ''DUPLICATE_TRANSACTION_REFERENCE''"
proof -
  have "\<not> unverified_order paid_db ''o1''"
    by (simp add: unverified_order_def paid_db_eq mark_paid_simps)
  moreover have "reference_used paid_db ''TX-0001''"
    by (simp add: reference_used_def paid_db_eq mark_paid_simps)
  ultimately show ?thesis by (simp add: verify_not_found failure_json_def)
qed

text \<open>
  Claim C5, at its failing input. The column \<open>orders.shipping_fee\<close> has no \<open>CHECK\<close>:
  \<open>place_order_complete\<close> called with a negative \<open>p_shipping_fee\<close> succeeds and the state
  reached holds an order whose shipping fee is negative. (The total price is guarded:
  see \<open>total_price_never_negative\<close>.)
\<close>

lemma total_price_never_negative: "list_all (\<lambda>r. 0 \<le> total_price r) (orders (run ops))"
  using run_db_ok [of ops] by (simp add: db_ok_def orders_ok_def list_all_iff)

theorem negative_shipping_fee_accepted:
  "fst (place_order_complete (sample_args\<lparr>p_shipping_fee := - 5000\<rparr>) sample_env (run shop_history)) =
     Inr (order_placed_json sample_env) \<and>
   map shipping_fee
     (orders (run (shop_history @
                   [PlaceOrderComplete (sample_args\<lparr>p_shipping_fee := - 5000\<rparr>) sample_env]))) =
     [- 5000]"
proof -
  have "order_accepted (sample_args\<lparr>p_shipping_fee := - 5000\<rparr>) sample_env shop_db"
    using sample_accepted by (simp add: order_accepted_def sample_args_def)
  from place_order_block_accepted [OF shop_db_ok this]
  have "place_order_complete (sample_args\<lparr>p_shipping_fee := - 5000\<rparr>) sample_env shop_db =
          (Inr (order_placed_json sample_env),
           order_placed_db (sample_args\<lparr>p_shipping_fee := - 5000\<rparr>) sample_env shop_db)"
    by (simp add: place_order_complete_def)
  moreover have
    "run (shop_history @ [PlaceOrderComplete (sample_args\<lparr>p_shipping_fee := - 5000\<rparr>) sample_env]) =
     snd (place_order_complete (sample_args\<lparr>p_shipping_fee := - 5000\<rparr>) sample_env shop_db)"
    using run_shop_history by (simp add: run_def)
  ultimately show ?thesis
    by (simp add: run_shop_history order_placed_db_def new_order_row_def shop_db_def sample_args_def)
qed



text \<open>
  Claim C7. In a consistent state \<open>updateOrderStatus\<close> sets the status of the order to
  any of the seven values, whatever the order's status was: the outcome does not
  mention it. The database checks only that a status is one of the seven values: an
  update of the status to a text succeeds exactly when the text is one of them.
\<close>

theorem updateOrderStatus_any_status:
  assumes "db_ok d" and "r \<in> set (orders d)"
  shows "updateOrderStatus (o_id r) s d =
           (Inr (),
            d\<lparr>orders := map (\<lambda>x. if o_id x = o_id r then x\<lparr>status := Some (status_text s)\<rparr> else x)
                            (orders d)\<rparr>) \<and>
         (update_orders (\<lambda>x. o_id x = o_id r) (\<lambda>x. x\<lparr>status := Some v\<rparr>) d =
            Inr (d\<lparr>orders := map (\<lambda>x. if o_id x = o_id r then x\<lparr>status := Some v\<rparr> else x)
                                (orders d)\<rparr>)) = (v \<in> set order_statuses) \<and>
         set order_statuses = range status_text"
proof (intro conjI)
  from assms(1) have oo: "orders_ok (orders d)" by (simp add: db_ok_def)
  show "updateOrderStatus (o_id r) s d =
          (Inr (),
           d\<lparr>orders := map (\<lambda>x. if o_id x = o_id r then x\<lparr>status := Some (status_text s)\<rparr> else x)
                           (orders d)\<rparr>)"
    using set_status_keeps [OF oo assms(2) refl status_text_allowed, of s]
    by (simp add: updateOrderStatus_def)
  show "(update_orders (\<lambda>x. o_id x = o_id r) (\<lambda>x. x\<lparr>status := Some v\<rparr>) d =
           Inr (d\<lparr>orders := map (\<lambda>x. if o_id x = o_id r then x\<lparr>status := Some v\<rparr> else x)
                               (orders d)\<rparr>)) = (v \<in> set order_statuses)"
  proof (cases "v \<in> set order_statuses")
    case True
    with set_status_keeps [OF oo assms(2) refl True] show ?thesis by simp
  next
    case False
    with set_status_refused [OF oo assms(2) refl False] show ?thesis by simp
  qed
  have "(UNIV :: OrderStatus set) =
          {Pending, Paid, Processing, Shipping, Delivered, Cancelled, Problem}"
  proof
    show "(UNIV :: OrderStatus set) \<subseteq>
            {Pending, Paid, Processing, Shipping, Delivered, Cancelled, Problem}"
    proof
      fix x :: OrderStatus
      show "x \<in> {Pending, Paid, Processing, Shipping, Delivered, Cancelled, Problem}"
        by (cases x) simp_all
    qed
  qed simp
  then have "range status_text =
               status_text ` {Pending, Paid, Processing, Shipping, Delivered, Cancelled, Problem}"
    by (rule arg_cong)
  then show "set order_statuses = range status_text"
    by (simp add: order_statuses_def)
qed

theorem updateOrderStatus_any_status_witness:
  "db_ok placed_db \<and> new_order_row sample_args sample_env \<in> set (orders placed_db) \<and>
   map status (orders placed_db) = [Some ''pending''] \<and>
   map status (orders (snd (updateOrderStatus ''o1'' Delivered placed_db))) = [Some ''delivered''] \<and>
   fst (updateOrderStatus ''o1'' Delivered placed_db) = Inr () \<and>
   map status (orders (snd (updateOrderStatus ''o1'' Pending
                              (snd (updateOrderStatus ''o1'' Delivered placed_db))))) =
     [Some ''pending''] \<and>
   ''refunded'' \<notin> set order_statuses \<and>
   update_orders (\<lambda>x. o_id x = ''o1'') (\<lambda>x. x\<lparr>status := Some ''refunded''\<rparr>) placed_db \<noteq>
     Inr (placed_db\<lparr>orders := map (\<lambda>x. if o_id x = ''o1'' then x\<lparr>status := Some ''refunded''\<rparr> else x)
                                  (orders placed_db)\<rparr>)"
proof -
  let ?r = "new_order_row sample_args sample_env"
  let ?d1 = "snd (updateOrderStatus ''o1'' Delivered placed_db)"
  have m: "?r \<in> set (orders placed_db)" "o_id ?r = ''o1''"
    by (simp_all add: orders_placed_db new_order_row_simps sample_new_uuid)
  have n: "''refunded'' \<notin> set order_statuses" by (simp add: order_statuses_def)
  have ok1: "db_ok ?d1" by (rule updateOrderStatus_db_ok) (rule placed_db_ok)
  from updateOrderStatus_any_status [OF placed_db_ok m(1), of Delivered "''refunded''"] m(2)
  have e1: "updateOrderStatus ''o1'' Delivered placed_db =
              (Inr (), placed_db\<lparr>orders := [?r\<lparr>status := Some ''delivered''\<rparr>]\<rparr>)"
    and e2: "update_orders (\<lambda>x. o_id x = ''o1'') (\<lambda>x. x\<lparr>status := Some ''refunded''\<rparr>) placed_db \<noteq>
       Inr (placed_db\<lparr>orders := map (\<lambda>x. if o_id x = ''o1'' then x\<lparr>status := Some ''refunded''\<rparr> else x)
                                    (orders placed_db)\<rparr>)"
    using n by (simp_all add: orders_placed_db)
  have m1: "?r\<lparr>status := Some ''delivered''\<rparr> \<in> set (orders ?d1)"
    "o_id (?r\<lparr>status := Some ''delivered''\<rparr>) = ''o1''"
    by (simp_all add: e1 m(2))
  from updateOrderStatus_any_status [OF ok1 m1(1), of Pending "''refunded''"] m1(2)
  have e3: "map status (orders (snd (updateOrderStatus ''o1'' Pending ?d1))) = [Some ''pending'']"
    by (simp add: e1)
  from e1 e2 e3 m n placed_db_ok show ?thesis
    by (simp add: orders_placed_db new_order_row_simps)
qed




section \<open>Properties of the cart\<close>

lemma product_id_update [simp]:
  "product_id \<circ> (\<lambda>item. if product_id item = k then item\<lparr>quantity := g item\<rparr> else item)
     = product_id"
  by (auto simp: fun_eq_iff)

lemma find_None_product_id:
  "find (\<lambda>item. product_id item = k) items = None \<Longrightarrow> k \<notin> product_id ` set items"
  by (auto simp: find_None_iff)

lemma addItem_distinct:
  "distinct (map product_id items) \<Longrightarrow> distinct (map product_id (addItem product q items))"
  unfolding addItem_def Let_def
  by (auto dest: find_None_product_id split: option.splits)

lemma removeItem_distinct:
  "distinct (map product_id items) \<Longrightarrow> distinct (map product_id (removeItem k items))"
  unfolding removeItem_def by (simp add: distinct_map_filter)

lemma updateQuantity_distinct:
  "distinct (map product_id items) \<Longrightarrow> distinct (map product_id (updateQuantity k q items))"
  unfolding updateQuantity_def
  by (simp add: removeItem_distinct)

lemma cart_step_distinct:
  "distinct (map product_id items) \<Longrightarrow> distinct (map product_id (cart_step items a))"
  by (cases a) (simp_all add: addItem_distinct removeItem_distinct updateQuantity_distinct clearCart_def)

lemma foldl_cart_step_distinct:
  "distinct (map product_id items) \<Longrightarrow> distinct (map product_id (foldl cart_step items acts))"
  by (induction acts arbitrary: items) (simp_all add: cart_step_distinct)

text \<open>
  Claim C10. Starting from the empty cart, after every sequence of addItem, removeItem,
  updateQuantity and clearCart the product ids of the cart's items are pairwise
  distinct; and addItem on a product that is already in the cart keeps the number of
  items and adds the given amount to that item's quantity.
\<close>

theorem cart_product_ids_distinct:
  "distinct (map product_id (cart_run acts)) \<and>
   length (addItem product (Some q) (cart_run acts)) =
     (if p_id product \<in> product_id ` set (cart_run acts)
      then length (cart_run acts) else Suc (length (cart_run acts))) \<and>
   map quantity (filter (\<lambda>i. product_id i = p_id product) (addItem product (Some q) (cart_run acts))) =
     (if p_id product \<in> product_id ` set (cart_run acts)
      then map (\<lambda>i. quantity i + q) (filter (\<lambda>i. product_id i = p_id product) (cart_run acts))
      else [q])"
proof -
  let ?items = "cart_run acts"
  have d: "distinct (map product_id ?items)"
    unfolding cart_run_def by (rule foldl_cart_step_distinct) simp
  show ?thesis
  proof (cases "find (\<lambda>i. product_id i = p_id product) ?items")
    case None
    then have "p_id product \<notin> product_id ` set ?items" by (rule find_None_product_id)
    moreover from this have "filter (\<lambda>i. product_id i = p_id product) ?items = []"
      by (force simp: filter_empty_conv)
    ultimately show ?thesis using d None by (simp add: addItem_def)
  next
    case (Some e)
    then have "find (\<lambda>i. product_id i = p_id product) ?items \<noteq> None" by simp
    then obtain x where "x \<in> set ?items" "product_id x = p_id product"
      by (auto simp: find_None_iff)
    then have "p_id product \<in> product_id ` set ?items"
      by (metis imageI)
    then show ?thesis using d Some
      by (simp add: addItem_def filter_map comp_def if_distrib [of quantity] cong: if_cong)
  qed
qed

end
